theory Spec2Isabelle
  imports
    Complex_Main
    "HOL-Library.Multiset"
    "HOL-Library.Product_Lexorder"
    "HOL-Library.List_Lexorder"
    "HOL-Library.Char_ord"
    "HOL-Library.AList"
begin

section \<open>Python values shared by the three scripts\<close>

text \<open>
  The scripts are Python; every exception they can raise on the paths modelled here is a
  constructor of \<open>error\<close>. Strings are byte strings (\<open>char list\<close>): the model covers
  ASCII text, which is what the tools' inputs (kernel logs, \<open>tblist -S\<close> and
  \<open>tbtrace\<close> CSV dumps) contain.
\<close>

datatype error = IndexError | KeyError | ValueError | TypeError | AttributeError

text \<open>
  A CSV cell as the scripts see it: \<^verbatim>\<open>csv.DictReader\<close> yields strings, and \<^verbatim>\<open>None\<close>
  for the cells a short line lacks; the conversions store integers. A row is a Python
  dictionary from column names to cells, kept as an association list in insertion order.
  (A line with more cells than the header also gets the key \<^verbatim>\<open>None\<close>; keys are
  strings here, so such lines are outside the model.)
\<close>

datatype val = NoneV | Str string | IntV int

type_synonym row = "(string \<times> val) list"

text \<open>The truth value of a cell in a condition (\<^verbatim>\<open>if tmp:\<close>, \<^verbatim>\<open>if not line:\<close>).\<close>

fun truthy :: "val \<Rightarrow> bool" where
  "truthy NoneV \<longleftrightarrow> False"
| "truthy (Str s) \<longleftrightarrow> s \<noteq> []"
| "truthy (IntV i) \<longleftrightarrow> i \<noteq> 0"

text \<open>\<^verbatim>\<open>fields[name]\<close> on a dictionary raises \<^verbatim>\<open>KeyError\<close> for a key it does not hold.\<close>

definition getitem :: "row \<Rightarrow> string \<Rightarrow> error + val" where
  "getitem fields name = (case map_of fields name of None \<Rightarrow> Inl KeyError | Some v \<Rightarrow> Inr v)"

section \<open>merge-logs.py\<close>

subsection \<open>The boundary pattern\<close>

text \<open>
  \<^verbatim>\<open>pattern = re.compile(r"^\[\s*(\d+\.\d+)\]")\<close>, used with \<^verbatim>\<open>pattern.match(line)\<close>.
  On ASCII text \<^verbatim>\<open>\s\<close> matches the characters 0x09..0x0D, 0x1C..0x1F and the blank,
  \<^verbatim>\<open>\d\<close> matches \<open>0\<close>..\<open>9\<close>. The three character classes that follow one another
  (\<^verbatim>\<open>\s\<close>, \<^verbatim>\<open>\d\<close>, the dot, \<^verbatim>\<open>\d\<close>, the bracket) are pairwise disjoint, so
  the greedy scan below is the only way the pattern can match. The result is group 1,
  given as the digits before and after its dot.
\<close>

definition re_space :: "char \<Rightarrow> bool" where
  "re_space c \<longleftrightarrow>
     c \<in> set [CHR 0x09, CHR ''\<newline>'', CHR 0x0B, CHR 0x0C, CHR 0x0D,
              CHR 0x1C, CHR 0x1D, CHR 0x1E, CHR 0x1F, CHR '' '']"

definition re_digit :: "char \<Rightarrow> bool" where
  "re_digit c \<longleftrightarrow> c \<in> set ''0123456789''"

definition pattern_match :: "string \<Rightarrow> (string \<times> string) option" where
  "pattern_match line =
     (case line of
        [] \<Rightarrow> None
      | c # rest \<Rightarrow>
          if c \<noteq> CHR ''['' then None
          else
            let r1 = dropWhile re_space rest;
                ip = takeWhile re_digit r1;
                r2 = dropWhile re_digit r1
            in if ip = [] then None
               else (case r2 of
                       [] \<Rightarrow> None
                     | d # r3 \<Rightarrow>
                         if d \<noteq> CHR ''.'' then None
                         else
                           let fp = takeWhile re_digit r3;
                               r4 = dropWhile re_digit r3
                           in if fp = [] then None
                              else (case r4 of
                                      [] \<Rightarrow> None
                                    | b # _ \<Rightarrow>
                                        if b = CHR '']'' then Some (ip, fp) else None)))"

subsection \<open>\<^verbatim>\<open>float(match.group(1))\<close>\<close>

text \<open>
  Python's \<^verbatim>\<open>float\<close> maps a decimal literal to the nearest IEEE 754 binary64 number,
  ties to the even significand, and a literal too large for the format to \<^verbatim>\<open>inf\<close>.
  The literals the pattern captures are unsigned, so the results are the non-negative
  doubles and \<^verbatim>\<open>inf\<close>: a finite one is kept as the rational number it denotes. Floats
  compare by value, \<^verbatim>\<open>inf\<close> above every finite one.
\<close>

datatype pyfloat = Finite rat | Infinity

instantiation pyfloat :: linorder
begin

fun less_eq_pyfloat :: "pyfloat \<Rightarrow> pyfloat \<Rightarrow> bool" where
  "less_eq_pyfloat (Finite a) (Finite b) \<longleftrightarrow> a \<le> b"
| "less_eq_pyfloat (Finite a) Infinity \<longleftrightarrow> True"
| "less_eq_pyfloat Infinity (Finite b) \<longleftrightarrow> False"
| "less_eq_pyfloat Infinity Infinity \<longleftrightarrow> True"

definition less_pyfloat :: "pyfloat \<Rightarrow> pyfloat \<Rightarrow> bool" where
  "less_pyfloat x y \<longleftrightarrow> x \<le> y \<and> \<not> y \<le> x"

instance
proof
  fix x y z :: pyfloat
  show "x < y \<longleftrightarrow> x \<le> y \<and> \<not> y \<le> x"
    by (simp add: less_pyfloat_def)
  show "x \<le> x"
    by (cases x) simp_all
  show "x \<le> y \<Longrightarrow> y \<le> z \<Longrightarrow> x \<le> z"
    by (cases x; cases y; cases z) simp_all
  show "x \<le> y \<Longrightarrow> y \<le> x \<Longrightarrow> x = y"
    by (cases x; cases y) simp_all
  show "x \<le> y \<or> y \<le> x"
    by (cases x; cases y) auto
qed

end

fun bit_length :: "nat \<Rightarrow> nat" where
  "bit_length n = (if n = 0 then 0 else Suc (bit_length (n div 2)))"

declare bit_length.simps [simp del]

definition num2 :: "int \<Rightarrow> nat" where
  "num2 k = 2 ^ nat k"

definition den2 :: "int \<Rightarrow> nat" where
  "den2 k = 2 ^ nat (- k)"

definition round_half_even_div :: "nat \<Rightarrow> nat \<Rightarrow> nat" where
  "round_half_even_div a b =
     (let q = a div b; r = a mod b
      in if 2 * r < b then q
         else if b < 2 * r then q + 1
         else if even q then q else q + 1)"

text \<open>
  \<open>binary64 a b\<close> rounds the fraction \<open>a / b\<close> (\<open>b > 0\<close>) to binary64. Two to the power
  \<open>k\<close> is \<open>num2 k / den2 k\<close>. \<open>e\<close> is the binary exponent of the fraction
  (\<open>2^e \<le> a / b < 2^(e+1)\<close>), \<open>p\<close> the exponent of the last place: 53 significant bits,
  never below the smallest subnormal \<open>2^-1074\<close>. \<open>m\<close> is the fraction in units of
  \<open>2^p\<close>, rounded half to even.
\<close>

definition binary64 :: "nat \<Rightarrow> nat \<Rightarrow> pyfloat" where
  "binary64 a b =
     (if a = 0 then Finite 0
      else
        let k = int (bit_length a) - int (bit_length b);
            e = (if b * num2 k \<le> a * den2 k then k else k - 1);
            p = max (e - 52) (- 1074);
            m = round_half_even_div (a * den2 p) (b * num2 p);
            v = (of_nat (m * num2 p) :: rat) / of_nat (den2 p)
        in if 2 ^ 1024 \<le> v then Infinity else Finite v)"

definition digit_value :: "char \<Rightarrow> nat" where
  "digit_value c = of_char c - 48"

definition decimal :: "string \<Rightarrow> nat" where
  "decimal ds = foldl (\<lambda>n c. 10 * n + digit_value c) 0 ds"

definition py_float :: "string \<Rightarrow> string \<Rightarrow> pyfloat" where
  "py_float ip fp = binary64 (decimal (ip @ fp)) (10 ^ length fp)"

subsection \<open>The heap\<close>

text \<open>
  A heap item is the tuple \<^verbatim>\<open>(float, count, text)\<close> (the counter is \<open>cnt\<close>
  below). Python compares tuples lexicographically, and so do the orders on products and
  lists used here.

  \<^verbatim>\<open>heapq\<close> keeps the list in heap order. The program only pushes items and pops the
  least one, and the items are linearly ordered, so which item a pop returns does not
  depend on the layout of the list: the model keeps the items in the order of the
  pushes.
\<close>

type_synonym entry = "pyfloat \<times> nat \<times> string"

definition stamp :: "entry \<Rightarrow> pyfloat" where
  "stamp e = fst e"

definition seqno :: "entry \<Rightarrow> nat" where
  "seqno e = fst (snd e)"

definition body :: "entry \<Rightarrow> string" where
  "body e = snd (snd e)"

definition heappush :: "entry list \<Rightarrow> entry \<Rightarrow> entry list" where
  "heappush heap item = heap @ [item]"

definition heappop :: "entry list \<Rightarrow> entry \<times> entry list" where
  "heappop heap = (let item = min_list heap in (item, remove1 item heap))"

subsection \<open>Reading the files\<close>

text \<open>
  A file is the list of its lines, each without its line terminator (what
  \<^verbatim>\<open>file.readline()\<close> followed by \<^verbatim>\<open>rstrip('\n')\<close> yields until the empty string
  signals the end). \<open>read_lines\<close> is the \<^verbatim>\<open>while True\<close> loop for one file; the pending
  entry is \<open>None\<close> for the empty tuple \<^verbatim>\<open>()\<close>, which is false in a condition and whose
  indexing raises \<^verbatim>\<open>IndexError\<close>.
\<close>

definition push_pending :: "entry option \<Rightarrow> entry list \<Rightarrow> entry list" where
  "push_pending entry heap = (case entry of None \<Rightarrow> heap | Some e \<Rightarrow> heappush heap e)"

fun read_lines ::
  "entry option \<Rightarrow> nat \<Rightarrow> entry list \<Rightarrow> string list \<Rightarrow> error + nat \<times> entry list" where
  "read_lines entry cnt heap [] = Inr (cnt, push_pending entry heap)"
| "read_lines entry cnt heap (line # rest) =
     (case pattern_match line of
        Some (ip, fp) \<Rightarrow>
          read_lines (Some (py_float ip fp, cnt, line)) (cnt + 1)
            (push_pending entry heap) rest
      | None \<Rightarrow>
          (case entry of
             None \<Rightarrow> Inl IndexError
           | Some e \<Rightarrow>
               read_lines (Some (fst e, fst (snd e), snd (snd e) @ ''\<newline>'' @ line))
                 cnt heap rest))"

fun read_files :: "nat \<Rightarrow> entry list \<Rightarrow> string list list \<Rightarrow> error + entry list" where
  "read_files cnt heap [] = Inr heap"
| "read_files cnt heap (file # files) =
     (case read_lines None cnt heap file of
        Inl err \<Rightarrow> Inl err
      | Inr (cnt', heap') \<Rightarrow> read_files cnt' heap' files)"

subsection \<open>Printing\<close>

lemma min_list_in_set: "heap \<noteq> [] \<Longrightarrow> min_list heap \<in> set (heap :: entry list)"
  by (simp add: min_list_Min)

lemma heappop_shorter:
  assumes "heap \<noteq> []" and "(item, heap') = heappop heap"
  shows "length heap' < length heap"
proof -
  have "min_list heap \<in> set heap"
    using assms(1) by (rule min_list_in_set)
  then have "length (remove1 (min_list heap) heap) < length heap"
    using assms(1) by (simp add: length_remove1)
  moreover have "heap' = remove1 (min_list heap) heap"
    using assms(2) by (simp add: heappop_def Let_def)
  ultimately show ?thesis by simp
qed

text \<open>
  \<^verbatim>\<open>while heap: print(heappop(heap)[2])\<close>: \<open>pop_all\<close> lists the items in the order they
  are popped, \<open>drain\<close> the texts printed.
\<close>

function pop_all :: "entry list \<Rightarrow> entry list" where
  "pop_all heap =
     (if heap = [] then []
      else (case heappop heap of (item, heap') \<Rightarrow> item # pop_all heap'))"
  by pat_completeness auto
termination
  by (relation "measure length") (auto dest: heappop_shorter)

declare pop_all.simps [simp del]

function drain :: "entry list \<Rightarrow> string list" where
  "drain heap =
     (if heap = [] then []
      else (case heappop heap of (item, heap') \<Rightarrow> body item # drain heap'))"
  by pat_completeness auto
termination
  by (relation "measure length") (auto dest: heappop_shorter)

declare drain.simps [simp del]

definition merge_logs :: "string list list \<Rightarrow> error + string list" where
  "merge_logs logs =
     (case read_files 0 [] logs of
        Inl err \<Rightarrow> Inl err
      | Inr heap \<Rightarrow> Inr (drain heap))"

subsection \<open>What the merge computes\<close>

text \<open>
  The records of a file in the words of the specification: a record starts at a boundary
  line and takes the continuation lines up to the next boundary line, joined by line
  breaks; its time stamp is the float of the boundary line. \<open>split_records\<close> returns
  the continuation lines that precede the first boundary line, and the records from
  there on, top to bottom.
\<close>

definition line_stamp :: "string \<Rightarrow> pyfloat option" where
  "line_stamp line = map_option (\<lambda>(ip, fp). py_float ip fp) (pattern_match line)"

definition join_lines :: "string \<Rightarrow> string list \<Rightarrow> string" where
  "join_lines first conts = first @ concat (map (\<lambda>c. ''\<newline>'' @ c) conts)"

fun split_records :: "string list \<Rightarrow> string list \<times> (pyfloat \<times> string) list" where
  "split_records [] = ([], [])"
| "split_records (line # rest) =
     (case split_records rest of
        (conts, recs) \<Rightarrow>
          (case line_stamp line of
             None \<Rightarrow> (line # conts, recs)
           | Some t \<Rightarrow> ([], (t, join_lines line conts) # recs)))"

definition leading :: "string list \<Rightarrow> string list" where
  "leading file = fst (split_records file)"

definition records :: "string list \<Rightarrow> (pyfloat \<times> string) list" where
  "records file = snd (split_records file)"

text \<open>The records of all sources in the order they are finalized.\<close>

definition finalized :: "string list list \<Rightarrow> (pyfloat \<times> string) list" where
  "finalized logs = concat (map records logs)"

text \<open>The heap items of a list of records whose first one gets the count \<open>cnt\<close>.\<close>

fun number :: "nat \<Rightarrow> (pyfloat \<times> string) list \<Rightarrow> entry list" where
  "number cnt [] = []"
| "number cnt ((t, s) # recs) = (t, cnt, s) # number (Suc cnt) recs"

section \<open>util.py\<close>

subsection \<open>\<^verbatim>\<open>int(tmp, 16)\<close>\<close>

text \<open>
  Python's \<^verbatim>\<open>int\<close> with base 16 on ASCII text: blanks (0x09..0x0D and the space) around
  the number are skipped, one sign is allowed, then an optional \<^verbatim>\<open>0x\<close> or \<^verbatim>\<open>0X\<close> which
  one underscore may follow, then hexadecimal digits with single underscores between
  them. Anything else raises \<^verbatim>\<open>ValueError\<close>. A value that is not a string raises
  \<^verbatim>\<open>TypeError\<close> when a base is given.
\<close>

definition c_isspace :: "char \<Rightarrow> bool" where
  "c_isspace c \<longleftrightarrow>
     c \<in> set [CHR 0x09, CHR ''\<newline>'', CHR 0x0B, CHR 0x0C, CHR 0x0D, CHR '' '']"

definition hex_digit :: "char \<Rightarrow> bool" where
  "hex_digit c \<longleftrightarrow> c \<in> set ''0123456789abcdefABCDEF''"

definition hex_value :: "char \<Rightarrow> nat" where
  "hex_value c =
     (if c \<in> set ''0123456789'' then of_char c - 48
      else if c \<in> set ''abcdef'' then of_char c - 87
      else of_char c - 55)"

definition hex_number :: "string \<Rightarrow> nat" where
  "hex_number ds = foldl (\<lambda>n c. 16 * n + hex_value c) 0 ds"

fun strip_sign :: "string \<Rightarrow> bool \<times> string" where
  "strip_sign [] = (False, [])"
| "strip_sign (c # cs) =
     (if c = CHR ''+'' then (False, cs)
      else if c = CHR ''-'' then (True, cs)
      else (False, c # cs))"

fun strip_prefix16 :: "string \<Rightarrow> string" where
  "strip_prefix16 (a # b # cs) =
     (if a = CHR ''0'' \<and> (b = CHR ''x'' \<or> b = CHR ''X'')
      then (case cs of [] \<Rightarrow> [] | c # r \<Rightarrow> if c = CHR ''_'' then r else c # r)
      else a # b # cs)"
| "strip_prefix16 cs = cs"

fun adjacent_underscores :: "string \<Rightarrow> bool" where
  "adjacent_underscores (a # b # cs) \<longleftrightarrow>
     a = CHR ''_'' \<and> b = CHR ''_'' \<or> adjacent_underscores (b # cs)"
| "adjacent_underscores cs \<longleftrightarrow> False"

definition py_int16 :: "string \<Rightarrow> error + int" where
  "py_int16 s =
     (case strip_sign (dropWhile c_isspace s) of
        (negative, s2) \<Rightarrow>
          let s3 = strip_prefix16 s2;
              digits = takeWhile (\<lambda>c. hex_digit c \<or> c = CHR ''_'') s3;
              rest = dropWhile (\<lambda>c. hex_digit c \<or> c = CHR ''_'') s3
          in if digits = [] \<or> hd digits = CHR ''_'' \<or> last digits = CHR ''_''
                \<or> adjacent_underscores digits \<or> dropWhile c_isspace rest \<noteq> []
             then Inl ValueError
             else
               let n = int (hex_number (filter (\<lambda>c. c \<noteq> CHR ''_'') digits))
               in Inr (if negative then - n else n))"

fun py_int :: "val \<Rightarrow> error + int" where
  "py_int (Str s) = py_int16 s"
| "py_int (IntV i) = Inl TypeError"
| "py_int NoneV = Inl TypeError"

subsection \<open>The two helpers\<close>

text \<open>
  Both helpers change the dictionary they are given; the model returns the changed
  dictionary. Assigning to a key the dictionary holds keeps its position.
\<close>

definition convert_int :: "row \<Rightarrow> string \<Rightarrow> error + row" where
  "convert_int fields name =
     (case getitem fields name of
        Inl err \<Rightarrow> Inl err
      | Inr tmp \<Rightarrow>
          if truthy tmp
          then (case py_int tmp of
                  Inl err \<Rightarrow> Inl err
                | Inr n \<Rightarrow> Inr (AList.update name (IntV n) fields))
          else Inr fields)"

text \<open>
  \<^verbatim>\<open>datetime.datetime.fromtimestamp(float(tmp)).strftime("%Y-%m-%dT%H:%M:%S")\<close> depends on
  the time zone of the host. It is the parameter \<open>fromtimestamp\<close>: the text it renders
  for a cell, or the exception \<^verbatim>\<open>float\<close> or \<^verbatim>\<open>fromtimestamp\<close> raises.
\<close>

definition convert_timestamp ::
  "(val \<Rightarrow> error + string) \<Rightarrow> row \<Rightarrow> string \<Rightarrow> error + row" where
  "convert_timestamp fromtimestamp fields name =
     (case getitem fields name of
        Inl err \<Rightarrow> Inl err
      | Inr tmp \<Rightarrow>
          if truthy tmp
          then (case fromtimestamp tmp of
                  Inl err \<Rightarrow> Inl err
                | Inr s \<Rightarrow> Inr (AList.update name (Str s) fields))
          else Inr fields)"

section \<open>\<^verbatim>\<open>csv.DictWriter\<close>\<close>

text \<open>
  \<^verbatim>\<open>DictWriter(f, fieldnames=...)\<close> is created with its defaults \<^verbatim>\<open>restval=''\<close> and
  \<^verbatim>\<open>extrasaction='raise'\<close>: \<^verbatim>\<open>writerow\<close> raises \<^verbatim>\<open>ValueError\<close> for a dictionary with a
  key that is no field name, and otherwise writes one cell per field name, the empty
  string for a missing key. A written file is the list of its rows, each the list of
  its cells; the header row holds the field names.
\<close>

definition dict_to_list :: "string list \<Rightarrow> row \<Rightarrow> error + val list" where
  "dict_to_list fieldnames rowdict =
     (if \<exists>k \<in> set (map fst rowdict). k \<notin> set fieldnames then Inl ValueError
      else Inr (map (\<lambda>key. case map_of rowdict key of None \<Rightarrow> Str [] | Some v \<Rightarrow> v)
                  fieldnames))"

section \<open>process-devices.py\<close>

definition device_field_names :: "string list" where
  "device_field_names =
     [''domain'', ''route'', ''adapter'', ''index'', ''vendor'', ''device'',
      ''vendor_name'', ''device_name'', ''type'']"

text \<open>The body of \<^verbatim>\<open>for row in reader\<close>: the cells \<^verbatim>\<open>writerow\<close> writes, or the exception.\<close>

definition devices_body :: "row \<Rightarrow> error + val list" where
  "devices_body row =
     (case convert_int row ''route'' of
        Inl err \<Rightarrow> Inl err
      | Inr row1 \<Rightarrow>
     (case convert_int row1 ''vendor'' of
        Inl err \<Rightarrow> Inl err
      | Inr row2 \<Rightarrow>
     (case convert_int row2 ''device'' of
        Inl err \<Rightarrow> Inl err
      | Inr row3 \<Rightarrow> dict_to_list device_field_names row3)))"

fun devices_loop :: "val list list \<Rightarrow> row list \<Rightarrow> val list list \<times> error option" where
  "devices_loop output_file [] = (output_file, None)"
| "devices_loop output_file (row # rows) =
     (case devices_body row of
        Inl err \<Rightarrow> (output_file, Some err)
      | Inr cells \<Rightarrow> devices_loop (output_file @ [cells]) rows)"

text \<open>
  \<open>process_devices\<close> takes the rows the reader yields and returns the rows of the output
  file together with the exception that ended the run, if any.
\<close>

definition process_devices :: "row list \<Rightarrow> val list list \<times> error option" where
  "process_devices rows = devices_loop [map Str device_field_names] rows"

subsection \<open>What a run writes\<close>

text \<open>
  The outcome of one data row in the words of the specification. The three columns
  converted from hexadecimal text are \<open>hex_columns\<close>. A cell is \<open>convertible\<close> when
  the helper accepts it: \<^verbatim>\<open>None\<close>, the empty string, or the text of a base 16 number;
  \<open>converted\<close> is the cell after the helper. A row is \<open>writable\<close> when it has the
  three columns, each convertible, and no column outside the schema; \<open>written_cells\<close>
  are the cells written for it, in schema order. \<open>refusal\<close> is the exception that ends
  the run at a row that is not writable: that of the first conversion that fails, in
  the order route, vendor, device (\<^verbatim>\<open>KeyError\<close> for a missing column,
  \<^verbatim>\<open>ValueError\<close> for malformed text), and \<^verbatim>\<open>ValueError\<close> from \<^verbatim>\<open>writerow\<close> when all
  three convert.
\<close>

definition hex_columns :: "string list" where
  "hex_columns = [''route'', ''vendor'', ''device'']"

definition convertible :: "val \<Rightarrow> bool" where
  "convertible v =
     (case v of
        NoneV \<Rightarrow> True
      | Str s \<Rightarrow> s = [] \<or> (case py_int16 s of Inl err \<Rightarrow> False | Inr n \<Rightarrow> True)
      | IntV i \<Rightarrow> i = 0)"

definition converted :: "val \<Rightarrow> val" where
  "converted v =
     (case v of
        Str s \<Rightarrow> if s = [] then v else (case py_int16 s of Inl err \<Rightarrow> v | Inr n \<Rightarrow> IntV n)
      | _ \<Rightarrow> v)"

definition writable :: "row \<Rightarrow> bool" where
  "writable row \<longleftrightarrow>
     (\<forall>key \<in> set hex_columns. case map_of row key of None \<Rightarrow> False | Some v \<Rightarrow> convertible v) \<and>
     set (map fst row) \<subseteq> set device_field_names"

definition written_cells :: "row \<Rightarrow> val list" where
  "written_cells row =
     map (\<lambda>key. case map_of row key of
                  None \<Rightarrow> Str []
                | Some v \<Rightarrow> if key \<in> set hex_columns then converted v else v)
       device_field_names"

fun first_failure :: "string list \<Rightarrow> row \<Rightarrow> error option" where
  "first_failure [] row = None"
| "first_failure (key # keys) row =
     (case map_of row key of
        None \<Rightarrow> Some KeyError
      | Some v \<Rightarrow>
          if convertible v then first_failure keys row
          else Some (case v of IntV i \<Rightarrow> TypeError | _ \<Rightarrow> ValueError))"

definition refusal :: "row \<Rightarrow> error" where
  "refusal row = (case first_failure hex_columns row of None \<Rightarrow> ValueError | Some err \<Rightarrow> err)"

section \<open>process-trace.py\<close>

text \<open>
  The variable \<^verbatim>\<open>fields\<close> first holds the name of the fields file, a string, and from
  the first row on the list of buffered rows. Iterating over a string yields its
  characters.
\<close>

datatype str_or_rows = FileName string | Buffered "row list"

datatype item = Character char | Dict row

fun iterate :: "str_or_rows \<Rightarrow> item list" where
  "iterate (FileName s) = map Character s"
| "iterate (Buffered rows) = map Dict rows"

text \<open>
  \<^verbatim>\<open>{key: field[key] for key in field_names if key in field}\<close>. On a one-character
  string \<^verbatim>\<open>key in field\<close> is the substring test, and \<^verbatim>\<open>field[key]\<close> with a string
  index raises \<^verbatim>\<open>TypeError\<close>.
\<close>

definition select_keys :: "string list \<Rightarrow> row \<Rightarrow> row" where
  "select_keys names row =
     List.map_filter (\<lambda>key. map_option (Pair key) (map_of row key)) names"

fun comprehension :: "string list \<Rightarrow> item \<Rightarrow> error + row" where
  "comprehension names (Dict row) = Inr (select_keys names row)"
| "comprehension names (Character c) =
     (if \<exists>key \<in> set names. key = [] \<or> key = [c] then Inl TypeError else Inr [])"

definition entry_names :: "string list" where
  "entry_names =
     [''entry'', ''timestamp'', ''datetime'', ''function'', ''dropped'', ''pdf'', ''cs'',
      ''domain'', ''route'', ''adapter'', ''adapter_type'']"

definition field_names :: "string list" where
  "field_names = [''entry'', ''offset'', ''data_offset'', ''value'', ''name'']"

fun write_row ::
  "item list \<Rightarrow> val list list \<Rightarrow> string list \<Rightarrow> val list list \<times> error option" where
  "write_row [] writer names = (writer, None)"
| "write_row (field # rest) writer names =
     (case comprehension names field of
        Inl err \<Rightarrow> (writer, Some err)
      | Inr f \<Rightarrow>
     (case convert_int f ''offset'' of
        Inl err \<Rightarrow> (writer, Some err)
      | Inr f1 \<Rightarrow>
     (case convert_int f1 ''data_offset'' of
        Inl err \<Rightarrow> (writer, Some err)
      | Inr f2 \<Rightarrow>
     (case convert_int f2 ''value'' of
        Inl err \<Rightarrow> (writer, Some err)
      | Inr f3 \<Rightarrow>
     (case dict_to_list names f3 of
        Inl err \<Rightarrow> (writer, Some err)
      | Inr cells \<Rightarrow> write_row rest (writer @ [cells]) names)))))"

text \<open>The entry record written when \<open>row\<close> opens a new run: lines 62 to 65.\<close>

definition entry_record :: "(val \<Rightarrow> error + string) \<Rightarrow> row \<Rightarrow> error + val list" where
  "entry_record fromtimestamp row =
     (case convert_timestamp fromtimestamp (select_keys entry_names row) ''datetime'' of
        Inl err \<Rightarrow> Inl err
      | Inr e1 \<Rightarrow>
     (case convert_int e1 ''route'' of
        Inl err \<Rightarrow> Inl err
      | Inr e2 \<Rightarrow> dict_to_list entry_names e2))"

record trace_state =
  line :: val
  fields_var :: str_or_rows
  entries_file :: "val list list"
  fields_file :: "val list list"

fun append_row :: "str_or_rows \<Rightarrow> row \<Rightarrow> error + str_or_rows" where
  "append_row (Buffered rows) row = Inr (Buffered (rows @ [row]))"
| "append_row (FileName s) row = Inl AttributeError"

fun trace_loop ::
  "(val \<Rightarrow> error + string) \<Rightarrow> trace_state \<Rightarrow> row list \<Rightarrow> trace_state \<times> error option" where
  "trace_loop fromtimestamp st [] = (st, None)"
| "trace_loop fromtimestamp st (row # rows) =
     (case getitem row ''entry'' of
        Inl err \<Rightarrow> (st, Some err)
      | Inr entry \<Rightarrow>
          if \<not> truthy (line st)
          then trace_loop fromtimestamp (st\<lparr>line := entry, fields_var := Buffered [row]\<rparr>) rows
          else if line st \<noteq> entry
          then
            (case entry_record fromtimestamp row of
               Inl err \<Rightarrow> (st, Some err)
             | Inr cells \<Rightarrow>
                 let st1 = st\<lparr>entries_file := entries_file st @ [cells]\<rparr>
                 in (case write_row (iterate (fields_var st1)) (fields_file st1) field_names of
                       (written, Some err) \<Rightarrow> (st1\<lparr>fields_file := written\<rparr>, Some err)
                     | (written, None) \<Rightarrow>
                         trace_loop fromtimestamp
                           (st1\<lparr>fields_file := written, line := entry,
                               fields_var := Buffered [row]\<rparr>)
                           rows))
          else
            (case append_row (fields_var st) row of
               Inl err \<Rightarrow> (st, Some err)
             | Inr buffered \<Rightarrow> trace_loop fromtimestamp (st\<lparr>fields_var := buffered\<rparr>) rows))"

text \<open>
  \<open>base\<close> is the input path without directory and extension. The result is the rows of
  the entries file, the rows of the fields file, and the exception that ended the run,
  if any.
\<close>

definition process_trace ::
  "(val \<Rightarrow> error + string) \<Rightarrow> string \<Rightarrow> row list
     \<Rightarrow> val list list \<times> val list list \<times> error option" where
  "process_trace fromtimestamp base rows =
     (case trace_loop fromtimestamp
             \<lparr>line = NoneV,
              fields_var = FileName (base @ ''.processed.fields.csv''),
              entries_file = [map Str entry_names],
              fields_file = [map Str field_names]\<rparr>
             rows of
        (st, Some err) \<Rightarrow> (entries_file st, fields_file st, Some err)
      | (st, None) \<Rightarrow>
          (case write_row (iterate (fields_var st)) (fields_file st) field_names of
             (written, err) \<Rightarrow> (entries_file st, written, err)))"

text \<open>
  The number of contiguous runs of equal values in a list, as the specification counts
  the runs of equal \<open>entry\<close> value.
\<close>

fun runs :: "'a list \<Rightarrow> nat" where
  "runs [] = 0"
| "runs [x] = 1"
| "runs (x # y # zs) = (if x = y then runs (y # zs) else Suc (runs (y # zs)))"

subsection \<open>Sample input\<close>

text \<open>
  A row of a trace dump with all fifteen columns, and the two renderings the examples
  need, as a host whose local time is UTC produces them (no other value is rendered
  in the examples).
\<close>

definition trace_row :: "string \<Rightarrow> string \<Rightarrow> string \<Rightarrow> string \<Rightarrow> string \<Rightarrow> row" where
  "trace_row entry timestamp datetime offset name =
     [(''entry'', Str entry), (''timestamp'', Str timestamp), (''datetime'', Str datetime),
      (''function'', Str ''tb_cfg_read''), (''dropped'', Str ''0''), (''pdf'', Str ''1''),
      (''cs'', Str ''2''), (''domain'', Str ''0''), (''route'', Str ''1a''),
      (''adapter'', Str ''3''), (''adapter_type'', Str []), (''offset'', Str offset),
      (''data_offset'', Str ''0''), (''value'', Str ''ff''), (''name'', Str name)]"

definition utc_clock :: "val \<Rightarrow> error + string" where
  "utc_clock tmp =
     (if tmp = Str ''0'' then Inr ''1970-01-01T00:00:00''
      else if tmp = Str ''86400'' then Inr ''1970-01-02T00:00:00''
      else Inl ValueError)"

section \<open>Properties of merge-logs.py\<close>

subsection \<open>The reading loop computes the records\<close>

lemma number_append: "number cnt (xs @ ys) = number cnt xs @ number (cnt + length xs) ys"
  by (induction xs arbitrary: cnt) auto

lemma read_lines_pending:
  "read_lines (Some (t0, c0, s0)) cnt heap lines =
     Inr (cnt + length (records lines),
          heap @ [(t0, c0, join_lines s0 (leading lines))] @ number cnt (records lines))"
proof (induction lines arbitrary: t0 c0 s0 cnt heap)
  case Nil
  then show ?case
    by (simp add: records_def leading_def join_lines_def push_pending_def heappush_def)
next
  case (Cons line rest)
  obtain conts recs where sr: "split_records rest = (conts, recs)"
    by (cases "split_records rest")
  show ?case
  proof (cases "pattern_match line")
    case None
    then show ?thesis
      using sr Cons.IH [of t0 c0 "s0 @ ''\<newline>'' @ line" cnt heap]
      by (simp add: records_def leading_def join_lines_def line_stamp_def)
  next
    case (Some g)
    then show ?thesis
      using sr Cons.IH [of "py_float (fst g) (snd g)" cnt line "Suc cnt" "heap @ [(t0, c0, s0)]"]
      by (cases g)
        (simp add: records_def leading_def join_lines_def line_stamp_def push_pending_def
          heappush_def)
  qed
qed

lemma read_lines_fresh:
  "read_lines None cnt heap lines =
     (if leading lines = []
      then Inr (cnt + length (records lines), heap @ number cnt (records lines))
      else Inl IndexError)"
proof (cases lines)
  case Nil
  then show ?thesis
    by (simp add: records_def leading_def push_pending_def)
next
  case (Cons line rest)
  obtain conts recs where sr: "split_records rest = (conts, recs)"
    by (cases "split_records rest")
  show ?thesis
  proof (cases "pattern_match line")
    case None
    then show ?thesis
      using Cons sr by (simp add: leading_def line_stamp_def)
  next
    case (Some g)
    then show ?thesis
      using Cons sr read_lines_pending [of "py_float (fst g) (snd g)" cnt line "Suc cnt" heap rest]
      by (cases g)
        (simp add: records_def leading_def line_stamp_def push_pending_def join_lines_def)
  qed
qed

lemma read_files_eq:
  "read_files cnt heap logs =
     (if \<forall>lines \<in> set logs. leading lines = []
      then Inr (heap @ number cnt (finalized logs))
      else Inl IndexError)"
proof (induction logs arbitrary: cnt heap)
  case Nil
  then show ?case by (simp add: finalized_def)
next
  case (Cons lines logs)
  show ?case
  proof (cases "leading lines = []")
    case True
    then show ?thesis
      using Cons.IH by (simp add: read_lines_fresh finalized_def number_append)
  next
    case False
    then show ?thesis
      by (simp add: read_lines_fresh)
  qed
qed

subsection \<open>Popping the heap sorts it\<close>

lemma heappop_eq: "heappop heap = (min_list heap, remove1 (min_list heap) heap)"
  by (simp add: heappop_def Let_def)

lemma mset_pop_all: "mset (pop_all heap) = mset heap"
proof (induction heap rule: pop_all.induct)
  case (1 heap)
  show ?case
  proof (cases "heap = []")
    case True
    then show ?thesis by (simp add: pop_all.simps)
  next
    case False
    have m: "min_list heap \<in> set heap"
      using False by (rule min_list_in_set)
    have "mset (pop_all (remove1 (min_list heap) heap)) = mset (remove1 (min_list heap) heap)"
      using "1.IH" [OF False, of "min_list heap" "remove1 (min_list heap) heap"]
      by (simp only: heappop_eq)
    then show ?thesis
      using False m by (subst pop_all.simps) (simp add: heappop_eq)
  qed
qed

lemma sorted_pop_all: "sorted (pop_all heap)"
proof (induction heap rule: pop_all.induct)
  case (1 heap)
  show ?case
  proof (cases "heap = []")
    case True
    then show ?thesis by (simp add: pop_all.simps)
  next
    case False
    let ?m = "min_list heap"
    let ?rest = "remove1 ?m heap"
    have ih: "sorted (pop_all ?rest)"
      using "1.IH" [OF False, of ?m ?rest] by (simp only: heappop_eq)
    have "set (pop_all ?rest) = set ?rest"
      by (metis mset_pop_all set_mset_mset)
    then have "set (pop_all ?rest) \<subseteq> set heap"
      using set_remove1_subset [of ?m heap] by simp
    moreover have "?m \<le> x" if "x \<in> set heap" for x
      using that False by (simp add: min_list_Min)
    ultimately have "\<forall>x \<in> set (pop_all ?rest). ?m \<le> x"
      by blast
    then show ?thesis
      using False ih by (subst pop_all.simps) (simp add: heappop_eq)
  qed
qed

lemma pop_all_sort: "pop_all heap = sort heap"
  by (rule sym, rule properties_for_sort) (simp_all add: mset_pop_all sorted_pop_all)

lemma drain_pop_all: "drain heap = map body (pop_all heap)"
proof (induction heap rule: pop_all.induct)
  case (1 heap)
  show ?case
  proof (cases "heap = []")
    case True
    then show ?thesis by (simp add: pop_all.simps drain.simps)
  next
    case False
    have "drain (remove1 (min_list heap) heap) = map body (pop_all (remove1 (min_list heap) heap))"
      using "1.IH" [OF False, of "min_list heap" "remove1 (min_list heap) heap"]
      by (simp only: heappop_eq)
    then show ?thesis
      using False by (subst pop_all.simps, subst drain.simps) (simp add: heappop_eq)
  qed
qed

subsection \<open>The count makes the order stable\<close>

lemma stamp_number: "map stamp (number cnt recs) = map fst recs"
  by (induction cnt recs rule: number.induct) (simp_all add: stamp_def)

lemma body_number: "map body (number cnt recs) = map snd recs"
  by (induction cnt recs rule: number.induct) (simp_all add: body_def)

lemma seqno_number: "map seqno (number cnt recs) = [cnt..<cnt + length recs]"
  by (induction cnt recs rule: number.induct)
    (simp_all add: seqno_def upt_conv_Cons del: upt_Suc)

lemma entry_le_iff:
  "(a :: entry) \<le> b \<longleftrightarrow>
     stamp a < stamp b \<or>
     stamp a = stamp b \<and> (seqno a < seqno b \<or> seqno a = seqno b \<and> body a \<le> body b)"
  by (cases a; cases b) (auto simp: stamp_def seqno_def body_def)

lemma sorted_same_stamp:
  assumes "sorted_wrt (<) (map seqno es)" and "\<forall>e \<in> set es. stamp e = t"
  shows "sorted es"
  using assms
proof (induction es)
  case Nil
  then show ?case by simp
next
  case (Cons e es)
  then show ?case by (auto simp: entry_le_iff)
qed

lemma sorted_eq_mset_unique:
  assumes "sorted xs" and "sorted ys" and "mset xs = mset ys"
  shows "xs = (ys :: 'a :: linorder list)"
  using assms properties_for_sort sorted_sort_id by metis

lemma sort_increasing_seqno:
  assumes "sorted_wrt (<) (map seqno es)"
  shows "sort es = sort_key stamp es"
proof (rule sym, rule properties_for_sort_key)
  show "mset (sort es) = mset es" by simp
next
  fix k
  let ?P = "\<lambda>x. stamp k = stamp x"
  have "sorted_wrt (<) (map seqno (filter ?P es))"
    using assms by (simp add: sorted_wrt_map sorted_wrt_filter)
  then have a: "sorted (filter ?P es)"
    by (rule sorted_same_stamp [where t = "stamp k"]) simp
  have b: "sorted (filter ?P (sort es))"
    by (simp add: sorted_wrt_filter)
  have c: "mset (filter ?P (sort es)) = mset (filter ?P es)"
    by simp
  show "filter ?P (sort es) = filter ?P es"
    using b a c by (rule sorted_eq_mset_unique)
next
  have "sorted (sort es)" by simp
  then show "sorted (map stamp (sort es))"
    unfolding sorted_map
    by (rule sorted_wrt_mono_rel [rotated]) (auto simp: entry_le_iff)
qed

lemma sort_key_map: "sort_key f (map g xs) = map g (sort_key (\<lambda>x. f (g x)) xs)"
proof (induction xs)
  case Nil
  then show ?case by simp
next
  case (Cons x xs)
  have "insort_key f (g x) (map g ys) = map g (insort_key (\<lambda>x. f (g x)) x ys)" for ys
    by (induction ys) simp_all
  then show ?case using Cons by simp
qed

lemma stamp_body_number: "map (\<lambda>e. (stamp e, body e)) (number cnt recs) = recs"
  by (induction cnt recs rule: number.induct) (simp_all add: stamp_def body_def)

lemma drain_number: "drain (number cnt recs) = map snd (sort_key fst recs)"
proof -
  let ?es = "number cnt recs"
  let ?g = "\<lambda>e. (stamp e, body e)"
  have "sorted_wrt (<) (map seqno ?es)"
    by (simp add: seqno_number)
  then have "pop_all ?es = sort_key stamp ?es"
    by (simp add: pop_all_sort sort_increasing_seqno)
  then have "drain ?es = map snd (map ?g (sort_key stamp ?es))"
    by (simp add: drain_pop_all)
  also have "map ?g (sort_key stamp ?es) = sort_key fst (map ?g ?es)"
    by (simp add: sort_key_map)
  finally show ?thesis
    by (simp only: stamp_body_number)
qed

text \<open>
  The whole program as one equation: it raises \<^verbatim>\<open>IndexError\<close> when some source starts
  with a continuation line, and otherwise prints the finalized records sorted stably by
  time stamp.
\<close>

lemma merge_logs_eq:
  "merge_logs logs =
     (if \<forall>lines \<in> set logs. leading lines = []
      then Inr (map snd (sort_key fst (finalized logs)))
      else Inl IndexError)"
  using drain_number [of 0 "finalized logs"] by (simp add: merge_logs_def read_files_eq)

lemma leading_eq: "leading lines = takeWhile (\<lambda>l. pattern_match l = None) lines"
proof (induction lines)
  case Nil
  then show ?case by (simp add: leading_def)
next
  case (Cons l lines)
  then show ?case
    by (cases "split_records lines"; cases "pattern_match l")
      (auto simp: leading_def line_stamp_def)
qed

lemma stamps_records: "map fst (records lines) = List.map_filter line_stamp lines"
proof (induction lines)
  case Nil
  then show ?case by (simp add: records_def)
next
  case (Cons l lines)
  then show ?case
    by (cases "split_records lines"; cases "line_stamp l")
      (auto simp: records_def List.map_filter_simps)
qed

lemma map_filter_concat:
  "List.map_filter f (concat xss) = concat (map (List.map_filter f) xss)"
  by (induction xss) (simp_all add: List.map_filter_def)

lemma stamps_finalized: "map fst (finalized logs) = List.map_filter line_stamp (concat logs)"
  by (simp add: finalized_def map_concat map_filter_concat stamps_records comp_def)

lemma length_map_filter:
  "length (List.map_filter f xs) = length (filter (\<lambda>x. f x \<noteq> None) xs)"
  by (induction xs) (auto simp: List.map_filter_simps split: option.splits)

lemma merge_logs_count:
  assumes "merge_logs logs = Inr out"
  shows "length out = length (filter (\<lambda>l. pattern_match l \<noteq> None) (concat logs))"
proof -
  have "out = map snd (sort_key fst (finalized logs))"
    using assms by (simp add: merge_logs_eq split: if_splits)
  then have "length out = length (map fst (finalized logs))"
    by simp
  then show ?thesis
    by (simp only: stamps_finalized length_map_filter) (simp add: line_stamp_def)
qed

lemma merge_logs_leading:
  assumes "lines \<in> set logs" and "lines \<noteq> []" and "pattern_match (hd lines) = None"
  shows "merge_logs logs = Inl IndexError"
proof -
  have "leading lines \<noteq> []"
    using assms(2,3) by (cases lines) (simp_all add: leading_eq)
  then show ?thesis
    using assms(1) by (auto simp: merge_logs_eq)
qed

subsection \<open>Evaluation of the pattern and the float on the examples\<close>

lemmas pattern_simps = pattern_match_def re_space_def re_digit_def

lemmas float_simps =
  py_float_def decimal_def digit_value_def binary64_def bit_length.simps num2_def den2_def
  round_half_even_div_def Let_def

lemma stamp_1_0: "line_stamp ''[1.0] hello'' = Some (Finite 1)"
  by (simp add: line_stamp_def pattern_simps float_simps)

lemma stamp_2_0: "line_stamp ''[2.0] foo'' = Some (Finite 2)"
  by (simp add: line_stamp_def pattern_simps float_simps)

lemma stamp_3_0: "line_stamp ''[3.0] world'' = Some (Finite 3)"
  by (simp add: line_stamp_def pattern_simps float_simps)

lemma stamp_cont: "line_stamp ''cont'' = None"
  by (simp add: line_stamp_def pattern_simps)

lemma merge_logs_example:
  "merge_logs [[''[1.0] hello'', ''cont'', ''[3.0] world''], [''[2.0] foo'']] =
     Inr [''[1.0] hello\<newline>cont'', ''[2.0] foo'', ''[3.0] world'']"
  by (simp add: merge_logs_eq leading_def records_def finalized_def join_lines_def
      stamp_1_0 stamp_2_0 stamp_3_0 stamp_cont)

text \<open>
  C1: whenever LogMerger prints, the printed records are the finalized records (sources
  in argument order, each top to bottom, with the floats parsed from their boundary
  lines) sorted by time stamp, non-decreasing, and the records of any one time stamp
  keep the order in which they were finalized.
\<close>

theorem merge_logs_sorted_stable:
  assumes "merge_logs logs = Inr out"
  shows "out = map snd (sort_key fst (finalized logs)) \<and>
         sorted (map fst (sort_key fst (finalized logs))) \<and>
         filter (\<lambda>r. fst r = t) (sort_key fst (finalized logs)) =
           filter (\<lambda>r. fst r = t) (finalized logs) \<and>
         map fst (finalized logs) = List.map_filter line_stamp (concat logs)"
proof -
  have "out = map snd (sort_key fst (finalized logs))"
    using assms by (simp add: merge_logs_eq split: if_splits)
  then show ?thesis
    by (simp add: sort_key_stable stamps_finalized)
qed

lemma stamp_2_b: "line_stamp ''[2.0] b'' = Some (Finite 2)"
  by (simp add: line_stamp_def pattern_simps float_simps)

lemma stamp_1_a: "line_stamp ''[1.0] a'' = Some (Finite 1)"
  by (simp add: line_stamp_def pattern_simps float_simps)

lemma stamp_1_c: "line_stamp ''[1.00] c'' = Some (Finite 1)"
  by (simp add: line_stamp_def pattern_simps float_simps)

lemma merge_logs_ties:
  "merge_logs [[''[2.0] b'', ''[1.0] a''], [''[1.00] c'']] =
     Inr [''[1.0] a'', ''[1.00] c'', ''[2.0] b'']"
  by (simp add: merge_logs_eq leading_def records_def finalized_def join_lines_def
      stamp_2_b stamp_1_a stamp_1_c)

theorem merge_logs_sorted_stable_witness:
  "merge_logs [[''[2.0] b'', ''[1.0] a''], [''[1.00] c'']] =
     Inr [''[1.0] a'', ''[1.00] c'', ''[2.0] b''] \<and>
   [''[1.0] a'', ''[1.00] c'', ''[2.0] b''] =
     map snd (sort_key fst (finalized [[''[2.0] b'', ''[1.0] a''], [''[1.00] c'']])) \<and>
   filter (\<lambda>r. fst r = Finite 1)
       (sort_key fst (finalized [[''[2.0] b'', ''[1.0] a''], [''[1.00] c'']])) =
     [(Finite 1, ''[1.0] a''), (Finite 1, ''[1.00] c'')]"
  using merge_logs_sorted_stable [OF merge_logs_ties, of "Finite 1"]
  by (simp add: merge_logs_ties finalized_def records_def stamp_2_b stamp_1_a stamp_1_c
      join_lines_def)

text \<open>
  C2: one source holds a boundary line, the next one only a line without time stamp.
  The input has one boundary line; the program raises \<^verbatim>\<open>IndexError\<close> and prints no
  record.
\<close>

theorem merge_logs_count_failing:
  "merge_logs [[''[1.0] a''], [''no stamp'']] = Inl IndexError \<and>
   length (filter (\<lambda>l. pattern_match l \<noteq> None) (concat [[''[1.0] a''], [''no stamp'']])) = 1"
  by (simp add: merge_logs_def push_pending_def heappush_def pattern_simps)

text \<open>
  C3: a source whose first line is a continuation line. The program raises
  \<^verbatim>\<open>IndexError\<close> at \<^verbatim>\<open>entry[0]\<close> on the empty tuple instead of dropping the line.
\<close>

theorem merge_logs_leading_failing:
  "merge_logs [[''cont'', ''[1.0] a'']] = Inl IndexError"
  by (simp add: merge_logs_def pattern_simps)

text \<open>
  C9: on the two files of the example the program prints the three records with their
  bracketed time stamps, which are part of the lines.
\<close>

theorem merge_logs_example_output:
  "merge_logs [[''[1.0] hello'', ''cont'', ''[3.0] world''], [''[2.0] foo'']] =
     Inr [''[1.0] hello\<newline>cont'', ''[2.0] foo'', ''[3.0] world'']"
  by (rule merge_logs_example)

theorem merge_logs_example_counterexample:
  "merge_logs [[''[1.0] hello'', ''cont'', ''[3.0] world''], [''[2.0] foo'']] \<noteq>
     Inr [''hello\<newline>cont'', ''foo'', ''world'']"
  by (simp add: merge_logs_example)

section \<open>Properties of util.py\<close>

lemmas int16_simps =
  py_int16_def c_isspace_def hex_digit_def hex_number_def hex_value_def

lemma py_int16_1a: "py_int16 ''1a'' = Inr 26"
  by (simp add: int16_simps)

lemma py_int16_8086: "py_int16 ''8086'' = Inr 32902"
  by (simp add: int16_simps)

lemma py_int16_10d3: "py_int16 ''10d3'' = Inr 4307"
  by (simp add: int16_simps)

lemma py_int16_zz: "py_int16 ''zz'' = Inl ValueError"
  by (simp add: int16_simps)

lemma py_int16_error: "py_int16 s = Inl err \<Longrightarrow> err = ValueError"
  by (auto simp: py_int16_def Let_def split: prod.splits if_splits)

lemma takeWhile_all: "\<forall>x \<in> set xs. P x \<Longrightarrow> takeWhile P xs = xs"
  by (induction xs) auto

lemma no_adjacent_underscores: "CHR ''_'' \<notin> set s \<Longrightarrow> \<not> adjacent_underscores s"
  by (induction s rule: adjacent_underscores.induct) auto

lemma hex_digit_cases:
  "hex_digit c \<Longrightarrow> \<not> c_isspace c \<and> c \<noteq> CHR ''+'' \<and> c \<noteq> CHR ''-'' \<and> c \<noteq> CHR ''_''
     \<and> c \<noteq> CHR ''x'' \<and> c \<noteq> CHR ''X''"
  by (auto simp: hex_digit_def c_isspace_def)

text \<open>On a non-empty string of hexadecimal digits the result is its base 16 value.\<close>

lemma py_int16_hex:
  assumes "s \<noteq> []" and "\<forall>c \<in> set s. hex_digit c"
  shows "py_int16 s = Inr (int (hex_number s))"
proof -
  obtain a r where s: "s = a # r"
    using assms(1) by (cases s) auto
  have a: "hex_digit a"
    using assms(2) s by simp
  have sp: "dropWhile c_isspace s = s"
    using s a hex_digit_cases by simp
  have sg: "strip_sign s = (False, s)"
    using s a hex_digit_cases by simp
  have pf: "strip_prefix16 s = s"
  proof (cases r)
    case Nil
    then show ?thesis using s by simp
  next
    case (Cons b r')
    then have "hex_digit b" using assms(2) s by simp
    then show ?thesis using s Cons hex_digit_cases by simp
  qed
  have us: "CHR ''_'' \<notin> set s"
    using assms(2) hex_digit_cases by blast
  have tw: "takeWhile (\<lambda>c. hex_digit c \<or> c = CHR ''_'') s = s"
    using assms(2) by (simp add: takeWhile_all)
  have dw: "dropWhile (\<lambda>c. hex_digit c \<or> c = CHR ''_'') s = []"
    using assms(2) by simp
  have fl: "filter (\<lambda>c. c \<noteq> CHR ''_'') s = s"
    using us by (simp add: filter_id_conv) blast
  have hd_ok: "hd s \<noteq> CHR ''_''" and last_ok: "last s \<noteq> CHR ''_''"
    using us assms(1) by (metis list.set_sel(1), metis last_in_set)
  show ?thesis
    using assms(1) hd_ok last_ok us
    by (simp add: py_int16_def sp sg pf tw dw fl no_adjacent_underscores)
qed

lemma hex_number_snoc: "hex_number (s @ [c]) = 16 * hex_number s + hex_value c"
  by (simp add: hex_number_def)

lemma strip_sign_keeps:
  "x \<in> set xs \<Longrightarrow> x \<noteq> CHR ''+'' \<Longrightarrow> x \<noteq> CHR ''-'' \<Longrightarrow> x \<in> set (snd (strip_sign xs))"
  by (cases xs) auto

lemma skip_underscore_keeps:
  "x \<in> set cs \<Longrightarrow> x \<noteq> CHR ''_'' \<Longrightarrow>
     x \<in> set (case cs of [] \<Rightarrow> [] | c # r \<Rightarrow> if c = CHR ''_'' then r else c # r)"
  by (cases cs) auto

lemma strip_prefix16_keeps:
  assumes "x \<in> set xs" and "x \<noteq> CHR ''0''" and "x \<noteq> CHR ''x''" and "x \<noteq> CHR ''X''"
    and "x \<noteq> CHR ''_''"
  shows "x \<in> set (strip_prefix16 xs)"
proof (cases "\<exists>a b cs. xs = a # b # cs \<and> a = CHR ''0'' \<and> (b = CHR ''x'' \<or> b = CHR ''X'')")
  case True
  then obtain a b cs where
    xs: "xs = a # b # cs" and p: "a = CHR ''0'' \<and> (b = CHR ''x'' \<or> b = CHR ''X'')"
    by blast
  have "x \<in> set cs"
    using assms xs p by auto
  then show ?thesis
    using xs p assms(5) skip_underscore_keeps [of x cs] by simp
next
  case False
  have "strip_prefix16 xs = xs"
  proof (cases xs)
    case Nil
    then show ?thesis by simp
  next
    case (Cons a r)
    show ?thesis
    proof (cases r)
      case Nil
      then show ?thesis using Cons by simp
    next
      case (Cons b cs)
      then have "\<not> (a = CHR ''0'' \<and> (b = CHR ''x'' \<or> b = CHR ''X''))"
        using False \<open>xs = a # r\<close> by blast
      then have "strip_prefix16 (a # b # cs) = a # b # cs"
        by (simp only: strip_prefix16.simps if_False)
      then show ?thesis
        using Cons \<open>xs = a # r\<close> by simp
    qed
  qed
  then show ?thesis
    using assms(1) by simp
qed

lemma in_dropWhile: "x \<in> set xs \<Longrightarrow> \<not> P x \<Longrightarrow> x \<in> set (dropWhile P xs)"
  by (induction xs) auto

text \<open>
  A character that is neither a hexadecimal digit nor one of the blanks, signs, \<open>x\<close>,
  \<open>X\<close> or the underscore makes the text malformed.
\<close>

lemma py_int16_malformed:
  assumes "c \<in> set s" and "\<not> hex_digit c" and "\<not> c_isspace c"
    and "c \<notin> set ''+-xX_''"
  shows "py_int16 s = Inl ValueError"
proof -
  obtain negative s2 where sg: "strip_sign (dropWhile c_isspace s) = (negative, s2)"
    by (cases "strip_sign (dropWhile c_isspace s)")
  let ?P = "\<lambda>c. hex_digit c \<or> c = CHR ''_''"
  have 1: "c \<in> set (dropWhile c_isspace s)"
    using assms(1,3) by (rule in_dropWhile)
  have 2: "c \<in> set s2"
    using strip_sign_keeps [OF 1] sg assms(4) by simp
  have "c \<noteq> CHR ''0''"
    using assms(2) by (auto simp: hex_digit_def)
  then have 3: "c \<in> set (strip_prefix16 s2)"
    using 2 assms(4) by (intro strip_prefix16_keeps) simp_all
  have "c \<in> set (dropWhile ?P (strip_prefix16 s2))"
    using 3 assms(2,4) by (intro in_dropWhile) auto
  then have "c \<in> set (dropWhile c_isspace (dropWhile ?P (strip_prefix16 s2)))"
    using assms(3) by (rule in_dropWhile)
  then have "dropWhile c_isspace (dropWhile ?P (strip_prefix16 s2)) \<noteq> []"
    by (metis empty_iff empty_set)
  then show ?thesis
    by (simp add: py_int16_def sg Let_def)
qed

lemma convert_int_keys:
  assumes "convert_int row name = Inr row'"
  shows "map fst row' = map fst row"
proof -
  have "map fst (AList.update name v row) = map fst row" if "map_of row name = Some w" for v w
    using that by (induction row) (auto split: if_splits)
  then show ?thesis
    using assms
    by (auto simp: convert_int_def getitem_def split: option.splits if_splits sum.splits)
qed

lemma convert_int_other:
  assumes "convert_int row name = Inr row'" and "key \<noteq> name"
  shows "map_of row' key = map_of row key"
  using assms
  by (auto simp: convert_int_def getitem_def update_conv' split: option.splits if_splits sum.splits)

text \<open>
  C7, amended: the helper raises \<^verbatim>\<open>KeyError\<close> when the row does not hold the field;
  it leaves the row unchanged when the value is \<^verbatim>\<open>None\<close> or the empty string; it
  replaces a non-empty string by its base 16 integer, the other fields and the order of
  the columns unchanged; and it raises \<^verbatim>\<open>ValueError\<close> when the string is no base 16
  number.
\<close>

theorem convert_int_cases:
  "(map_of row name = None \<longrightarrow> convert_int row name = Inl KeyError) \<and>
   (map_of row name = Some NoneV \<or> map_of row name = Some (Str []) \<longrightarrow>
      convert_int row name = Inr row) \<and>
   (map_of row name = Some (Str s) \<and> s \<noteq> [] \<and> py_int16 s = Inr n \<longrightarrow>
      (\<exists>row'. convert_int row name = Inr row' \<and>
         map_of row' = (map_of row)(name \<mapsto> IntV n) \<and>
         map fst row' = map fst row)) \<and>
   (map_of row name = Some (Str s) \<and> s \<noteq> [] \<and> py_int16 s = Inl err \<longrightarrow>
      convert_int row name = Inl ValueError)"
proof (intro conjI impI)
  assume "map_of row name = None"
  then show "convert_int row name = Inl KeyError"
    by (simp add: convert_int_def getitem_def)
next
  assume "map_of row name = Some NoneV \<or> map_of row name = Some (Str [])"
  then show "convert_int row name = Inr row"
    by (auto simp: convert_int_def getitem_def)
next
  assume a: "map_of row name = Some (Str s) \<and> s \<noteq> [] \<and> py_int16 s = Inr n"
  then have c: "convert_int row name = Inr (AList.update name (IntV n) row)"
    by (simp add: convert_int_def getitem_def)
  show "\<exists>row'. convert_int row name = Inr row' \<and>
         map_of row' = (map_of row)(name \<mapsto> IntV n) \<and>
         map fst row' = map fst row"
    using c convert_int_keys [OF c] by (simp add: update_conv')
next
  assume a: "map_of row name = Some (Str s) \<and> s \<noteq> [] \<and> py_int16 s = Inl err"
  then have "err = ValueError"
    using py_int16_error by blast
  then show "convert_int row name = Inl ValueError"
    using a by (simp add: convert_int_def getitem_def)
qed

theorem convert_int_cases_witness:
  "convert_int [(''route'', Str ''1a''), (''vendor'', Str [])] ''device'' = Inl KeyError \<and>
   convert_int [(''route'', Str ''1a''), (''vendor'', Str [])] ''vendor'' =
     Inr [(''route'', Str ''1a''), (''vendor'', Str [])] \<and>
   (\<exists>row'. convert_int [(''route'', Str ''1a''), (''vendor'', Str [])] ''route'' = Inr row' \<and>
      map_of row' ''route'' = Some (IntV 26) \<and> map_of row' ''vendor'' = Some (Str [])) \<and>
   convert_int [(''route'', Str ''zz'')] ''route'' = Inl ValueError"
  using
    convert_int_cases [of "[(''route'', Str ''1a''), (''vendor'', Str [])]" "''device''"]
    convert_int_cases [of "[(''route'', Str ''1a''), (''vendor'', Str [])]" "''vendor''"]
    convert_int_cases [of "[(''route'', Str ''1a''), (''vendor'', Str [])]" "''route''" "''1a''" 26]
    convert_int_cases [of "[(''route'', Str ''zz'')]" "''route''" "''zz''" _ ValueError]
  by (auto simp: py_int16_1a py_int16_zz)

theorem convert_int_absent_counterexample:
  "convert_int [(''vendor'', Str ''8086'')] ''route'' = Inl KeyError \<and>
   convert_int [(''vendor'', Str ''8086'')] ''route'' \<noteq> Inr [(''vendor'', Str ''8086'')]"
  by (simp add: convert_int_def getitem_def)

section \<open>Properties of process-devices.py\<close>

lemma convert_int_dom:
  assumes "convert_int row name = Inr row'"
  shows "fst ` set row' = fst ` set row"
  using convert_int_keys [OF assms] by (metis set_map)

lemma dict_to_list_cells:
  assumes "dict_to_list names row = Inr cells"
  shows "fst ` set row \<subseteq> set names"
    and "cells = map (\<lambda>key. case map_of row key of None \<Rightarrow> Str [] | Some v \<Rightarrow> v) names"
  using assms by (auto simp: dict_to_list_def split: if_splits)

lemma convert_int_present:
  assumes "convert_int row name = Inr row'"
  shows "name \<in> fst ` set row"
  using assms
  by (auto simp: convert_int_def getitem_def split: option.splits dest: map_of_SomeD)
    (force dest: map_of_SomeD)+

lemma devices_body_written:
  assumes "devices_body row = Inr cells"
  shows "{''route'', ''vendor'', ''device''} \<subseteq> fst ` set row"
    and "fst ` set row \<subseteq> set device_field_names"
    and "length cells = length device_field_names"
    and "j < length device_field_names \<Longrightarrow> device_field_names ! j \<notin> fst ` set row \<Longrightarrow>
         cells ! j = Str []"
    and "j < length device_field_names \<Longrightarrow>
         device_field_names ! j \<notin> {''route'', ''vendor'', ''device''} \<Longrightarrow>
         map_of row (device_field_names ! j) = Some v \<Longrightarrow> cells ! j = v"
proof -
  obtain row1 row2 row3 where
    c1: "convert_int row ''route'' = Inr row1" and
    c2: "convert_int row1 ''vendor'' = Inr row2" and
    c3: "convert_int row2 ''device'' = Inr row3" and
    w: "dict_to_list device_field_names row3 = Inr cells"
    using assms by (auto simp: devices_body_def split: sum.splits)
  have k1: "fst ` set row1 = fst ` set row" and k2: "fst ` set row2 = fst ` set row"
    and keys: "fst ` set row3 = fst ` set row"
    using convert_int_dom [OF c1] convert_int_dom [OF c2] convert_int_dom [OF c3] by simp_all
  show "{''route'', ''vendor'', ''device''} \<subseteq> fst ` set row"
    using convert_int_present [OF c1] convert_int_present [OF c2] convert_int_present [OF c3]
      k1 k2
    by simp
  show "fst ` set row \<subseteq> set device_field_names"
    using dict_to_list_cells(1) [OF w] keys by simp
  show "length cells = length device_field_names"
    using dict_to_list_cells(2) [OF w] by simp
  show "cells ! j = Str []"
    if "j < length device_field_names" and "device_field_names ! j \<notin> fst ` set row"
  proof -
    have "map_of row3 (device_field_names ! j) = None"
      using that(2) keys by (simp add: map_of_eq_None_iff)
    then show ?thesis
      using dict_to_list_cells(2) [OF w] that(1) by simp
  qed
  show "cells ! j = v"
    if "j < length device_field_names"
      and "device_field_names ! j \<notin> {''route'', ''vendor'', ''device''}"
      and "map_of row (device_field_names ! j) = Some v"
  proof -
    have "map_of row3 (device_field_names ! j) = map_of row (device_field_names ! j)"
      using that(2) convert_int_other [OF c1] convert_int_other [OF c2] convert_int_other [OF c3]
      by simp
    then show ?thesis
      using dict_to_list_cells(2) [OF w] that(1,3) by simp
  qed
qed

lemma convert_int_absent: "map_of row name = None \<Longrightarrow> convert_int row name = Inl KeyError"
  by (simp add: convert_int_def getitem_def)

lemma convert_int_refused:
  assumes "map_of row name = Some v" and "\<not> convertible v"
  shows "convert_int row name = Inl (case v of IntV i \<Rightarrow> TypeError | _ \<Rightarrow> ValueError)"
proof (cases v)
  case NoneV
  then show ?thesis using assms by (simp add: convertible_def)
next
  case (Str s)
  then have "s \<noteq> []" and "\<exists>err. py_int16 s = Inl err"
    using assms(2) by (auto simp: convertible_def split: sum.splits)
  then obtain err where "py_int16 s = Inl err" by blast
  moreover from this have "err = ValueError" by (rule py_int16_error)
  ultimately show ?thesis
    using assms(1) Str \<open>s \<noteq> []\<close> by (simp add: convert_int_def getitem_def)
next
  case (IntV i)
  then show ?thesis
    using assms by (simp add: convert_int_def getitem_def convertible_def)
qed

lemma convert_int_accepted:
  assumes "map_of row name = Some v" and "convertible v"
  shows "\<exists>row'. convert_int row name = Inr row' \<and>
           map_of row' = (map_of row)(name \<mapsto> converted v) \<and>
           map fst row' = map fst row"
proof (cases "truthy v")
  case False
  then have "converted v = v"
    by (cases v) (simp_all add: converted_def)
  moreover have "(map_of row)(name \<mapsto> v) = map_of row"
    using assms(1) by (simp add: fun_upd_idem)
  ultimately show ?thesis
    using assms(1) False by (simp add: convert_int_def getitem_def)
next
  case True
  then obtain s n where v: "v = Str s" and s: "s \<noteq> []" and n: "py_int16 s = Inr n"
    using assms(2) by (cases v) (auto simp: convertible_def split: sum.splits)
  have c: "convert_int row name = Inr (AList.update name (IntV n) row)"
    using assms(1) v s n by (simp add: convert_int_def getitem_def)
  have "converted v = IntV n"
    using v s n by (simp add: converted_def)
  then show ?thesis
    using c convert_int_keys [OF c] by (simp add: update_conv')
qed

text \<open>
  The body of the loop, row by row: a writable row yields its cells, any other row the
  exception of the first step that fails.
\<close>

lemma devices_body_eq:
  "devices_body row = (if writable row then Inr (written_cells row) else Inl (refusal row))"
proof -
  let ?names = device_field_names
  show ?thesis
  proof (cases "map_of row ''route''")
    case None
    then show ?thesis
      by (simp add: devices_body_def convert_int_absent writable_def refusal_def hex_columns_def)
  next
    case r: (Some v1)
    show ?thesis
    proof (cases "convertible v1")
      case False
      then show ?thesis
        using r convert_int_refused [OF r False]
        by (simp add: devices_body_def writable_def refusal_def hex_columns_def)
    next
      case a1: True
      obtain row1 where
        c1: "convert_int row ''route'' = Inr row1" and
        m1: "map_of row1 = (map_of row)(''route'' \<mapsto> converted v1)" and
        k1: "map fst row1 = map fst row"
        using convert_int_accepted [OF r a1] by blast
      show ?thesis
      proof (cases "map_of row ''vendor''")
        case None
        then have "map_of row1 ''vendor'' = None"
          using m1 by simp
        then show ?thesis
          using None r a1 c1
          by (simp add: devices_body_def convert_int_absent writable_def refusal_def
              hex_columns_def)
      next
        case v: (Some v2)
        then have v': "map_of row1 ''vendor'' = Some v2"
          using m1 by simp
        show ?thesis
        proof (cases "convertible v2")
          case False
          then show ?thesis
            using r a1 v c1 convert_int_refused [OF v' False]
            by (simp add: devices_body_def writable_def refusal_def hex_columns_def)
        next
          case a2: True
          obtain row2 where
            c2: "convert_int row1 ''vendor'' = Inr row2" and
            m2: "map_of row2 = (map_of row1)(''vendor'' \<mapsto> converted v2)" and
            k2: "map fst row2 = map fst row1"
            using convert_int_accepted [OF v' a2] by blast
          show ?thesis
          proof (cases "map_of row ''device''")
            case None
            then have "map_of row2 ''device'' = None"
              using m1 m2 by simp
            then show ?thesis
              using None r a1 v a2 c1 c2
              by (simp add: devices_body_def convert_int_absent writable_def refusal_def
                  hex_columns_def)
          next
            case d: (Some v3)
            then have d': "map_of row2 ''device'' = Some v3"
              using m1 m2 by simp
            show ?thesis
            proof (cases "convertible v3")
              case False
              then show ?thesis
                using r a1 v a2 d c1 c2 convert_int_refused [OF d' False]
                by (simp add: devices_body_def writable_def refusal_def hex_columns_def)
            next
              case a3: True
              obtain row3 where
                c3: "convert_int row2 ''device'' = Inr row3" and
                m3: "map_of row3 = (map_of row2)(''device'' \<mapsto> converted v3)" and
                k3: "map fst row3 = map fst row2"
                using convert_int_accepted [OF d' a3] by blast
              have body: "devices_body row = dict_to_list ?names row3"
                by (simp add: devices_body_def c1 c2 c3)
              have keys: "map fst row3 = map fst row"
                using k1 k2 k3 by simp
              have ff: "first_failure hex_columns row = None"
                using r a1 v a2 d a3 by (simp add: hex_columns_def)
              have hex: "\<forall>key \<in> set hex_columns.
                           case map_of row key of None \<Rightarrow> False | Some v \<Rightarrow> convertible v"
                using r a1 v a2 d a3 by (simp add: hex_columns_def)
              have cell: "(case map_of row3 key of None \<Rightarrow> Str [] | Some v \<Rightarrow> v) =
                          (case map_of row key of
                             None \<Rightarrow> Str []
                           | Some v \<Rightarrow> if key \<in> set hex_columns then converted v else v)" for key
                using r v d by (auto simp: m1 m2 m3 hex_columns_def split: option.splits)
              show ?thesis
              proof (cases "set (map fst row) \<subseteq> set ?names")
                case True
                then have "dict_to_list ?names row3 = Inr (written_cells row)"
                  using keys by (auto simp: dict_to_list_def written_cells_def cell)
                then show ?thesis
                  using body True hex by (simp add: writable_def)
              next
                case False
                then have "dict_to_list ?names row3 = Inl ValueError"
                  using keys by (auto simp: dict_to_list_def)
                then show ?thesis
                  using body False ff by (simp add: writable_def refusal_def)
              qed
            qed
          qed
        qed
      qed
    qed
  qed
qed

lemma devices_loop_written:
  "\<exists>written err.
     devices_loop output_file rows = (output_file @ written, err) \<and>
     length written \<le> length rows \<and>
     (\<forall>i < length written. devices_body (rows ! i) = Inr (written ! i)) \<and>
     (case err of
        None \<Rightarrow> length written = length rows
      | Some e \<Rightarrow> length written < length rows \<and> devices_body (rows ! length written) = Inl e)"
proof (induction rows arbitrary: output_file)
  case Nil
  then show ?case by simp
next
  case (Cons row rows)
  show ?case
  proof (cases "devices_body row")
    case (Inl e)
    then show ?thesis
      by (intro exI [of _ "[]"] exI [of _ "Some e"]) simp
  next
    case (Inr cells)
    obtain written err where
      l: "devices_loop (output_file @ [cells]) rows = ((output_file @ [cells]) @ written, err)" and
      n: "length written \<le> length rows" and
      b: "\<forall>i < length written. devices_body (rows ! i) = Inr (written ! i)" and
      c: "case err of
            None \<Rightarrow> length written = length rows
          | Some e \<Rightarrow> length written < length rows \<and> devices_body (rows ! length written) = Inl e"
      using Cons.IH [of "output_file @ [cells]"] by blast
    have "\<forall>i < length (cells # written). devices_body ((row # rows) ! i) = Inr ((cells # written) ! i)"
      using b Inr by (auto simp: nth_Cons split: nat.splits)
    moreover have "case err of
            None \<Rightarrow> length (cells # written) = length (row # rows)
          | Some e \<Rightarrow> length (cells # written) < length (row # rows) \<and>
              devices_body ((row # rows) ! length (cells # written)) = Inl e"
      using c by (cases err) simp_all
    ultimately show ?thesis
      using Inr l n by (intro exI [of _ "cells # written"] exI [of _ err]) simp
  qed
qed

lemma written_cells_missing:
  assumes "j < length device_field_names" and "device_field_names ! j \<notin> fst ` set row"
  shows "written_cells row ! j = Str []"
proof -
  have "map_of row (device_field_names ! j) = None"
    using assms(2) by (simp add: map_of_eq_None_iff)
  then show ?thesis
    using assms(1) by (simp add: written_cells_def)
qed

lemma written_cells_copied:
  assumes "j < length device_field_names" and "device_field_names ! j \<notin> set hex_columns"
    and "map_of row (device_field_names ! j) = Some v"
  shows "written_cells row ! j = v"
  using assms by (simp add: written_cells_def)

lemma written_cells_converted:
  assumes "j < length device_field_names" and "device_field_names ! j \<in> set hex_columns"
    and "map_of row (device_field_names ! j) = Some (Str s)" and "py_int16 s = Inr n" and "s \<noteq> []"
  shows "written_cells row ! j = IntV n"
  using assms by (simp add: written_cells_def converted_def)

text \<open>
  A row with a column outside the schema is never writable. The exception it ends the
  run with is \<^verbatim>\<open>ValueError\<close> from \<^verbatim>\<open>writerow\<close> when route, vendor and device are
  present and convert, and the exception of the conversion that fails otherwise.
\<close>

lemma extra_column_not_writable:
  assumes "key \<in> fst ` set row" and "key \<notin> set device_field_names"
  shows "\<not> writable row"
  using assms by (auto simp: writable_def)

lemma extra_column_refusal:
  assumes "\<forall>key \<in> set hex_columns. case map_of row key of None \<Rightarrow> False | Some v \<Rightarrow> convertible v"
  shows "refusal row = ValueError"
proof -
  have "first_failure keys row = None"
    if "\<forall>key \<in> set keys. case map_of row key of None \<Rightarrow> False | Some v \<Rightarrow> convertible v"
    for keys
    using that by (induction keys) (auto split: option.splits)
  then show ?thesis
    using assms by (simp add: refusal_def)
qed

lemma missing_route_refusal: "map_of row ''route'' = None \<Longrightarrow> refusal row = KeyError"
  by (simp add: refusal_def hex_columns_def)

text \<open>
  C6, amended: the output starts with the header of the nine schema columns whatever
  the input is. The data rows are written in order up to the first row that is not
  writable; a row is writable when it has the columns route, vendor and device, each
  empty or a base 16 number, and no column outside the schema. A written row has an
  empty cell for every schema column the input row lacks, the converted cell for route,
  vendor and device, and the input cell for every other column. The first row that is
  not writable ends the run with the exception of its first failing step, and neither
  it nor a later row is written: columns outside the schema are never ignored.
\<close>

theorem process_devices_schema:
  "\<exists>written err.
     process_devices rows = (map Str device_field_names # written, err) \<and>
     length written \<le> length rows \<and>
     (\<forall>i < length written.
        writable (rows ! i) \<and> written ! i = written_cells (rows ! i) \<and>
        (\<forall>j < length device_field_names.
           device_field_names ! j \<notin> fst ` set (rows ! i) \<longrightarrow> written ! i ! j = Str [])) \<and>
     (case err of
        None \<Rightarrow> length written = length rows
      | Some e \<Rightarrow>
          length written < length rows \<and> \<not> writable (rows ! length written) \<and>
          e = refusal (rows ! length written))"
proof -
  obtain written err where
    l: "devices_loop [map Str device_field_names] rows =
          ([map Str device_field_names] @ written, err)" and
    n: "length written \<le> length rows" and
    b: "\<forall>i < length written. devices_body (rows ! i) = Inr (written ! i)" and
    c: "case err of
          None \<Rightarrow> length written = length rows
        | Some e \<Rightarrow> length written < length rows \<and> devices_body (rows ! length written) = Inl e"
    using devices_loop_written [of "[map Str device_field_names]" rows] by blast
  have w: "writable (rows ! i) \<and> written ! i = written_cells (rows ! i) \<and>
        (\<forall>j < length device_field_names.
           device_field_names ! j \<notin> fst ` set (rows ! i) \<longrightarrow> written ! i ! j = Str [])"
    if "i < length written" for i
  proof -
    have "devices_body (rows ! i) = Inr (written ! i)"
      using b that by simp
    then have "writable (rows ! i)" and "written ! i = written_cells (rows ! i)"
      by (simp_all add: devices_body_eq split: if_splits)
    then show ?thesis
      using written_cells_missing [of _ "rows ! i"] by simp
  qed
  have e: "case err of
        None \<Rightarrow> length written = length rows
      | Some e \<Rightarrow>
          length written < length rows \<and> \<not> writable (rows ! length written) \<and>
          e = refusal (rows ! length written)"
  proof (cases err)
    case None
    then show ?thesis using c by simp
  next
    case (Some e)
    then have "devices_body (rows ! length written) = Inl e"
      using c by simp
    then have "\<not> writable (rows ! length written)" and "e = refusal (rows ! length written)"
      by (simp_all add: devices_body_eq split: if_splits)
    then show ?thesis
      using Some c by simp
  qed
  have "process_devices rows = (map Str device_field_names # written, err)"
    using l by (simp add: process_devices_def)
  then show ?thesis
    using n w e by blast
qed

lemma devices_two_rows:
  "process_devices
     [[(''route'', Str ''1a''), (''vendor'', Str ''8086''), (''device'', Str ''10d3'')],
      [(''route'', Str ''1a''), (''vendor'', Str ''8086''), (''device'', Str ''10d3''),
       (''serial'', Str ''42'')]] =
     ([map Str device_field_names,
       [Str [], IntV 26, Str [], Str [], IntV 32902, IntV 4307, Str [], Str [], Str []]],
      Some ValueError)"
  by (simp add: process_devices_def devices_body_def convert_int_def getitem_def dict_to_list_def
      device_field_names_def py_int16_1a py_int16_8086 py_int16_10d3)

theorem process_devices_schema_witness:
  "process_devices
     [[(''route'', Str ''1a''), (''vendor'', Str ''8086''), (''device'', Str ''10d3'')],
      [(''route'', Str ''1a''), (''vendor'', Str ''8086''), (''device'', Str ''10d3''),
       (''serial'', Str ''42'')]] =
     ([map Str device_field_names,
       [Str [], IntV 26, Str [], Str [], IntV 32902, IntV 4307, Str [], Str [], Str []]],
      Some ValueError) \<and>
   writable [(''route'', Str ''1a''), (''vendor'', Str ''8086''), (''device'', Str ''10d3'')] \<and>
   written_cells [(''route'', Str ''1a''), (''vendor'', Str ''8086''), (''device'', Str ''10d3'')] =
     [Str [], IntV 26, Str [], Str [], IntV 32902, IntV 4307, Str [], Str [], Str []] \<and>
   \<not> writable [(''route'', Str ''1a''), (''vendor'', Str ''8086''), (''device'', Str ''10d3''),
       (''serial'', Str ''42'')] \<and>
   refusal [(''route'', Str ''1a''), (''vendor'', Str ''8086''), (''device'', Str ''10d3''),
       (''serial'', Str ''42'')] = ValueError"
  using process_devices_schema
    [of "[[(''route'', Str ''1a''), (''vendor'', Str ''8086''), (''device'', Str ''10d3'')],
          [(''route'', Str ''1a''), (''vendor'', Str ''8086''), (''device'', Str ''10d3''),
           (''serial'', Str ''42'')]]"]
  by (auto simp: devices_two_rows nth_Cons split: option.splits nat.splits)

text \<open>
  A row with a column outside the schema and without route: \<^verbatim>\<open>convert_int\<close> raises
  \<^verbatim>\<open>KeyError\<close> before \<^verbatim>\<open>writerow\<close> is reached.
\<close>

lemma devices_extra_column_no_route:
  "process_devices [[(''serial'', Str ''42''), (''vendor'', Str ''8086''), (''device'', Str ''10d3'')]] =
     ([map Str device_field_names], Some KeyError)"
  by (simp add: process_devices_def devices_body_def convert_int_def getitem_def)

theorem process_devices_extra_column_counterexample:
  "process_devices
     [[(''route'', Str ''1a''), (''vendor'', Str ''8086''), (''device'', Str ''10d3''),
       (''serial'', Str ''42'')]] =
     ([map Str device_field_names], Some ValueError)"
  by (simp add: process_devices_def devices_body_def convert_int_def getitem_def dict_to_list_def
      device_field_names_def py_int16_1a py_int16_8086 py_int16_10d3)

text \<open>
  C8, amended: a row of schema columns with route \<open>1a\<close>, vendor \<open>8086\<close> and device
  \<open>10d3\<close> is written with route 26, vendor 32902 and device 4307.
\<close>

theorem process_devices_example:
  assumes "map_of row ''route'' = Some (Str ''1a'')"
    and "map_of row ''vendor'' = Some (Str ''8086'')"
    and "map_of row ''device'' = Some (Str ''10d3'')"
    and "fst ` set row \<subseteq> set device_field_names"
  shows "\<exists>cells. process_devices [row] = ([map Str device_field_names, cells], None) \<and>
           cells ! 1 = IntV 26 \<and> cells ! 4 = IntV 32902 \<and> cells ! 5 = IntV 4307"
proof -
  let ?row1 = "AList.update ''route'' (IntV 26) row"
  let ?row2 = "AList.update ''vendor'' (IntV 32902) ?row1"
  let ?row3 = "AList.update ''device'' (IntV 4307) ?row2"
  have c1: "convert_int row ''route'' = Inr ?row1"
    using assms(1) by (simp add: convert_int_def getitem_def py_int16_1a)
  have c2: "convert_int ?row1 ''vendor'' = Inr ?row2"
    using assms(2) by (simp add: convert_int_def getitem_def py_int16_8086 update_conv')
  have c3: "convert_int ?row2 ''device'' = Inr ?row3"
    using assms(3) by (simp add: convert_int_def getitem_def py_int16_10d3 update_conv')
  have keys: "fst ` set ?row3 \<subseteq> set device_field_names"
    using assms(4) by (simp add: dom_update device_field_names_def)
  have "dict_to_list device_field_names ?row3 =
          Inr (map (\<lambda>key. case map_of ?row3 key of None \<Rightarrow> Str [] | Some v \<Rightarrow> v)
                 device_field_names)"
    using keys by (auto simp: dict_to_list_def)
  then have "devices_body row =
          Inr (map (\<lambda>key. case map_of ?row3 key of None \<Rightarrow> Str [] | Some v \<Rightarrow> v)
                 device_field_names)"
    by (simp add: devices_body_def c1 c2 c3)
  then show ?thesis
    by (simp add: process_devices_def update_conv' device_field_names_def)
qed

theorem process_devices_example_witness:
  "\<exists>cells.
     process_devices
       [[(''domain'', Str ''0''), (''route'', Str ''1a''), (''adapter'', Str ''1''),
         (''index'', Str ''0''), (''vendor'', Str ''8086''), (''device'', Str ''10d3''),
         (''vendor_name'', Str ''Intel''), (''device_name'', Str ''Gatkex Creek''),
         (''type'', Str ''Router'')]] =
       ([map Str device_field_names, cells], None) \<and>
     cells ! 1 = IntV 26 \<and> cells ! 4 = IntV 32902 \<and> cells ! 5 = IntV 4307"
  by (rule process_devices_example) (simp_all add: device_field_names_def)

theorem process_devices_example_counterexample:
  "fst (process_devices
     [[(''domain'', Str ''0''), (''route'', Str ''1a''), (''adapter'', Str ''1''),
       (''index'', Str ''0''), (''vendor'', Str ''8086''), (''device'', Str ''10d3''),
       (''vendor_name'', Str ''Intel''), (''device_name'', Str ''Gatkex Creek''),
       (''type'', Str ''Router'')]]) ! 1 ! 4 = IntV 32902 \<and>
   IntV 32902 \<noteq> IntV 34342"
  by (simp add: process_devices_def devices_body_def convert_int_def getitem_def dict_to_list_def
      device_field_names_def py_int16_1a py_int16_8086 py_int16_10d3)

section \<open>Properties of process-trace.py\<close>

lemma map_of_select_keys:
  "map_of (select_keys names row) key = (if key \<in> set names then map_of row key else None)"
  by (induction names) (auto simp: select_keys_def List.map_filter_simps split: option.splits)

lemma keys_select_keys: "fst ` set (select_keys names row) \<subseteq> set names"
  by (induction names) (auto simp: select_keys_def List.map_filter_simps split: option.splits)

text \<open>
  The cells of an entry record: the time stamp column is the cell of the input row, the
  date column is rendered from the \<open>datetime\<close> cell of the input row.
\<close>

lemma entry_record_cells:
  assumes "entry_record fromtimestamp row = Inr cells"
  shows "\<exists>tmp. map_of row ''datetime'' = Some tmp \<and>
           (if truthy tmp then \<exists>s. fromtimestamp tmp = Inr s \<and> cells ! 2 = Str s
            else cells ! 2 = tmp) \<and>
           cells ! 1 = (case map_of row ''timestamp'' of None \<Rightarrow> Str [] | Some v \<Rightarrow> v)"
proof -
  let ?e = "select_keys entry_names row"
  obtain e1 e2 where
    t: "convert_timestamp fromtimestamp ?e ''datetime'' = Inr e1" and
    c: "convert_int e1 ''route'' = Inr e2" and
    w: "dict_to_list entry_names e2 = Inr cells"
    using assms by (auto simp: entry_record_def split: sum.splits)
  have sel: "map_of ?e ''datetime'' = map_of row ''datetime''"
    "map_of ?e ''timestamp'' = map_of row ''timestamp''"
    by (simp_all add: map_of_select_keys entry_names_def)
  obtain tmp where tmp: "map_of row ''datetime'' = Some tmp"
    using t sel by (auto simp: convert_timestamp_def getitem_def split: option.splits)
  have e1: "if truthy tmp
            then \<exists>s. fromtimestamp tmp = Inr s \<and> e1 = AList.update ''datetime'' (Str s) ?e
            else e1 = ?e"
    using t sel tmp by (auto simp: convert_timestamp_def getitem_def split: sum.splits)
  have d1: "if truthy tmp then \<exists>s. fromtimestamp tmp = Inr s \<and> map_of e1 ''datetime'' = Some (Str s)
            else map_of e1 ''datetime'' = Some tmp"
    using e1 sel tmp by (auto simp: update_conv' split: if_splits)
  have t1: "map_of e1 ''timestamp'' = map_of row ''timestamp''"
    using e1 sel by (auto simp: update_conv' split: if_splits)
  have d2: "map_of e2 ''datetime'' = map_of e1 ''datetime''"
    and t2: "map_of e2 ''timestamp'' = map_of e1 ''timestamp''"
    using convert_int_other [OF c] by simp_all
  have cells: "cells = map (\<lambda>key. case map_of e2 key of None \<Rightarrow> Str [] | Some v \<Rightarrow> v) entry_names"
    using dict_to_list_cells(2) [OF w] .
  have "cells ! 2 = (case map_of e2 ''datetime'' of None \<Rightarrow> Str [] | Some v \<Rightarrow> v)"
    and "cells ! 1 = (case map_of e2 ''timestamp'' of None \<Rightarrow> Str [] | Some v \<Rightarrow> v)"
    unfolding cells by (simp_all add: entry_names_def)
  then show ?thesis
    using tmp d1 d2 t1 t2 by (auto split: if_splits)
qed

lemma trace_loop_entries:
  assumes "trace_loop fromtimestamp st rows = (st', err)"
  shows "\<exists>new. entries_file st' = entries_file st @ new \<and>
           (\<forall>cells \<in> set new. \<exists>row \<in> set rows. entry_record fromtimestamp row = Inr cells)"
  using assms
proof (induction rows arbitrary: st)
  case Nil
  then show ?case by simp
next
  case (Cons row rows)
  show ?case
  proof (cases "getitem row ''entry''")
    case (Inl e)
    then show ?thesis using Cons.prems by simp
  next
    case entry: (Inr entry)
    show ?thesis
    proof (cases "truthy (line st)")
      case False
      then have "trace_loop fromtimestamp (st\<lparr>line := entry, fields_var := Buffered [row]\<rparr>) rows
                   = (st', err)"
        using Cons.prems entry by simp
      from Cons.IH [OF this] show ?thesis by auto
    next
      case True
      show ?thesis
      proof (cases "line st = entry")
        case same: True
        show ?thesis
        proof (cases "append_row (fields_var st) row")
          case (Inl e)
          then show ?thesis using Cons.prems entry True same by simp
        next
          case (Inr buffered)
          then have "trace_loop fromtimestamp (st\<lparr>fields_var := buffered\<rparr>) rows = (st', err)"
            using Cons.prems entry True same by simp
          from Cons.IH [OF this] show ?thesis by auto
        qed
      next
        case differs: False
        show ?thesis
        proof (cases "entry_record fromtimestamp row")
          case (Inl e)
          then show ?thesis using Cons.prems entry True differs by simp
        next
          case cells: (Inr cells)
          let ?st1 = "st\<lparr>entries_file := entries_file st @ [cells]\<rparr>"
          obtain written werr where
            w: "write_row (iterate (fields_var ?st1)) (fields_file ?st1) field_names = (written, werr)"
            by (cases "write_row (iterate (fields_var ?st1)) (fields_file ?st1) field_names")
          show ?thesis
          proof (cases werr)
            case (Some e)
            then have "st' = ?st1\<lparr>fields_file := written\<rparr>"
              using Cons.prems entry True differs cells w by (simp add: Let_def)
            then show ?thesis using cells by simp
          next
            case None
            then have "trace_loop fromtimestamp
                (?st1\<lparr>fields_file := written, line := entry, fields_var := Buffered [row]\<rparr>) rows
                  = (st', err)"
              using Cons.prems entry True differs cells w by (simp add: Let_def)
            from Cons.IH [OF this] obtain new where
              "entries_file st' = (entries_file st @ [cells]) @ new"
              "\<forall>c \<in> set new. \<exists>row \<in> set rows. entry_record fromtimestamp row = Inr c"
              by auto
            then show ?thesis
              using cells by (intro exI [of _ "cells # new"]) auto
          qed
        qed
      qed
    qed
  qed
qed

lemma process_trace_entries:
  assumes "process_trace fromtimestamp base rows = (entries, fieldrows, err)"
  shows "\<exists>new. entries = map Str entry_names # new \<and>
           (\<forall>cells \<in> set new. \<exists>row \<in> set rows. entry_record fromtimestamp row = Inr cells)"
proof -
  let ?st0 = "\<lparr>line = NoneV, fields_var = FileName (base @ ''.processed.fields.csv''),
                entries_file = [map Str entry_names], fields_file = [map Str field_names]\<rparr>"
  obtain st lerr where l: "trace_loop fromtimestamp ?st0 rows = (st, lerr)"
    by (cases "trace_loop fromtimestamp ?st0 rows")
  have "entries = entries_file st"
    using assms l by (auto simp: process_trace_def split: option.splits prod.splits)
  then show ?thesis
    using trace_loop_entries [OF l] by auto
qed

text \<open>
  C5, amended: every entry record TraceSplitter writes is the projection of an input
  row with a \<open>datetime\<close> column. Its \<open>datetime\<close> cell is the local-time rendering
  of that row's own \<open>datetime\<close> value when the value is not empty, and the value
  itself when it is empty; its \<open>timestamp\<close> cell is the cell of that row, unchanged,
  and plays no part in the date.
\<close>

theorem entry_record_datetime:
  assumes "process_trace fromtimestamp base rows = (entries, fieldrows, err)"
    and "cells \<in> set (tl entries)"
  shows "\<exists>row \<in> set rows. \<exists>tmp.
           entry_record fromtimestamp row = Inr cells \<and>
           map_of row ''datetime'' = Some tmp \<and>
           (if truthy tmp then \<exists>s. fromtimestamp tmp = Inr s \<and> cells ! 2 = Str s
            else cells ! 2 = tmp) \<and>
           cells ! 1 = (case map_of row ''timestamp'' of None \<Rightarrow> Str [] | Some v \<Rightarrow> v)"
proof -
  obtain row where "row \<in> set rows" and "entry_record fromtimestamp row = Inr cells"
    using process_trace_entries [OF assms(1)] assms(2) by fastforce
  then show ?thesis
    using entry_record_cells [of fromtimestamp row cells] by blast
qed

lemmas trace_simps =
  process_trace_def trace_row_def utc_clock_def entry_record_def convert_timestamp_def
  convert_int_def getitem_def dict_to_list_def select_keys_def List.map_filter_simps
  entry_names_def field_names_def int16_simps

lemma trace_one_boundary:
  "process_trace utc_clock ''trace''
     [trace_row ''1'' ''86400'' ''0'' ''0'' ''a'', trace_row ''2'' ''0'' ''86400'' ''4'' ''b''] =
     ([map Str entry_names,
       [Str ''2'', Str ''0'', Str ''1970-01-02T00:00:00'', Str ''tb_cfg_read'', Str ''0'',
        Str ''1'', Str ''2'', Str ''0'', IntV 26, Str ''3'', Str []]],
      [map Str field_names,
       [Str ''1'', IntV 0, IntV 0, IntV 255, Str ''a''],
       [Str ''2'', IntV 4, IntV 0, IntV 255, Str ''b'']],
      None)"
  by (simp add: trace_simps)

lemma entry_record_first_row:
  "entry_record utc_clock (trace_row ''1'' ''86400'' ''0'' ''0'' ''a'') =
     Inr [Str ''1'', Str ''86400'', Str ''1970-01-01T00:00:00'', Str ''tb_cfg_read'', Str ''0'',
          Str ''1'', Str ''2'', Str ''0'', IntV 26, Str ''3'', Str []]"
  by (simp add: trace_simps)

lemma entry_record_second_row:
  "entry_record utc_clock (trace_row ''2'' ''0'' ''86400'' ''4'' ''b'') =
     Inr [Str ''2'', Str ''0'', Str ''1970-01-02T00:00:00'', Str ''tb_cfg_read'', Str ''0'',
          Str ''1'', Str ''2'', Str ''0'', IntV 26, Str ''3'', Str []]"
  by (simp add: trace_simps)

text \<open>
  The witness: the two rows differ in both columns. The one record written is the
  projection of the second row and of no other; its date renders 86400, the
  \<open>datetime\<close> of the second row, and its time stamp is 0.
\<close>

theorem entry_record_datetime_witness:
  "[Str ''2'', Str ''0'', Str ''1970-01-02T00:00:00'', Str ''tb_cfg_read'', Str ''0'',
    Str ''1'', Str ''2'', Str ''0'', IntV 26, Str ''3'', Str []]
   \<in> set (tl (fst (process_trace utc_clock ''trace''
       [trace_row ''1'' ''86400'' ''0'' ''0'' ''a'', trace_row ''2'' ''0'' ''86400'' ''4'' ''b'']))) \<and>
   entry_record utc_clock (trace_row ''2'' ''0'' ''86400'' ''4'' ''b'') =
     Inr [Str ''2'', Str ''0'', Str ''1970-01-02T00:00:00'', Str ''tb_cfg_read'', Str ''0'',
          Str ''1'', Str ''2'', Str ''0'', IntV 26, Str ''3'', Str []] \<and>
   entry_record utc_clock (trace_row ''1'' ''86400'' ''0'' ''0'' ''a'') \<noteq>
     Inr [Str ''2'', Str ''0'', Str ''1970-01-02T00:00:00'', Str ''tb_cfg_read'', Str ''0'',
          Str ''1'', Str ''2'', Str ''0'', IntV 26, Str ''3'', Str []] \<and>
   map_of (trace_row ''2'' ''0'' ''86400'' ''4'' ''b'') ''datetime'' = Some (Str ''86400'') \<and>
   utc_clock (Str ''86400'') = Inr ''1970-01-02T00:00:00''"
  using entry_record_datetime [OF trace_one_boundary,
      of "[Str ''2'', Str ''0'', Str ''1970-01-02T00:00:00'', Str ''tb_cfg_read'', Str ''0'',
           Str ''1'', Str ''2'', Str ''0'', IntV 26, Str ''3'', Str []]"]
  by (simp add: trace_one_boundary entry_record_first_row entry_record_second_row)
    (simp add: trace_row_def utc_clock_def)

theorem entry_record_datetime_counterexample:
  "fst (process_trace utc_clock ''trace''
     [trace_row ''1'' ''86400'' ''0'' ''0'' ''a'', trace_row ''2'' ''0'' ''86400'' ''4'' ''b'']) ! 1 ! 1
     = Str ''0'' \<and>
   fst (process_trace utc_clock ''trace''
     [trace_row ''1'' ''86400'' ''0'' ''0'' ''a'', trace_row ''2'' ''0'' ''86400'' ''4'' ''b'']) ! 1 ! 2
     = Str ''1970-01-02T00:00:00'' \<and>
   utc_clock (Str ''0'') = Inr ''1970-01-01T00:00:00'' \<and>
   ''1970-01-02T00:00:00'' \<noteq> ''1970-01-01T00:00:00''"
  by (simp add: trace_one_boundary) (simp add: utc_clock_def)

lemma runs_pos: "1 \<le> runs (x # xs)"
  by (induction xs arbitrary: x) simp_all

lemma trace_loop_entry_count:
  assumes "trace_loop fromtimestamp st rows = (st', err)"
  shows "length (entries_file st') + 1 \<le>
           length (entries_file st) + runs (Inr (line st) # map (\<lambda>row. getitem row ''entry'') rows)"
  using assms
proof (induction rows arbitrary: st)
  case Nil
  then show ?case by simp
next
  case (Cons row rows)
  let ?es = "map (\<lambda>row. getitem row ''entry'') rows"
  show ?case
  proof (cases "getitem row ''entry''")
    case (Inl e)
    then show ?thesis using Cons.prems by simp
  next
    case entry: (Inr entry)
    have mono: "runs (Inr entry # ?es) \<le> runs (Inr (line st) # Inr entry # ?es)"
      by simp
    have step: "Suc (runs (Inr entry # ?es)) = runs (Inr (line st) # Inr entry # ?es)"
      if "line st \<noteq> entry"
      using that by simp
    have pos: "1 \<le> runs (Inr entry # ?es)"
      by (rule runs_pos)
    show ?thesis
    proof (cases "truthy (line st)")
      case False
      then have "trace_loop fromtimestamp (st\<lparr>line := entry, fields_var := Buffered [row]\<rparr>) rows
                   = (st', err)"
        using Cons.prems entry by simp
      from Cons.IH [OF this] show ?thesis
        using entry mono by simp
    next
      case True
      show ?thesis
      proof (cases "line st = entry")
        case same: True
        show ?thesis
        proof (cases "append_row (fields_var st) row")
          case (Inl e)
          then show ?thesis using Cons.prems entry True same pos by simp
        next
          case (Inr buffered)
          then have "trace_loop fromtimestamp (st\<lparr>fields_var := buffered\<rparr>) rows = (st', err)"
            using Cons.prems entry True same by simp
          from Cons.IH [OF this] show ?thesis
            using entry same by simp
        qed
      next
        case differs: False
        show ?thesis
        proof (cases "entry_record fromtimestamp row")
          case (Inl e)
          then show ?thesis using Cons.prems entry True differs pos by simp
        next
          case cells: (Inr cells)
          let ?st1 = "st\<lparr>entries_file := entries_file st @ [cells]\<rparr>"
          obtain written werr where
            w: "write_row (iterate (fields_var ?st1)) (fields_file ?st1) field_names = (written, werr)"
            by (cases "write_row (iterate (fields_var ?st1)) (fields_file ?st1) field_names")
          show ?thesis
          proof (cases werr)
            case (Some e)
            then have "st' = ?st1\<lparr>fields_file := written\<rparr>"
              using Cons.prems entry True differs cells w by (simp add: Let_def)
            then show ?thesis
              using entry step [OF differs] pos by simp
          next
            case None
            then have "trace_loop fromtimestamp
                (?st1\<lparr>fields_file := written, line := entry, fields_var := Buffered [row]\<rparr>) rows
                  = (st', err)"
              using Cons.prems entry True differs cells w by (simp add: Let_def)
            from Cons.IH [OF this] show ?thesis
              using entry step [OF differs] by simp
          qed
        qed
      qed
    qed
  qed
qed

text \<open>
  For every input with at least one data row the entries file gets fewer records than
  the input has runs of equal entry value: its length, header included, is at most the
  number of runs.
\<close>

lemma process_trace_fewer_entries:
  assumes "process_trace fromtimestamp base rows = (entries, fieldrows, err)" and "rows \<noteq> []"
  shows "length (tl entries) < runs (map (\<lambda>row. getitem row ''entry'') rows)"
proof -
  let ?st0 = "\<lparr>line = NoneV, fields_var = FileName (base @ ''.processed.fields.csv''),
                entries_file = [map Str entry_names], fields_file = [map Str field_names]\<rparr>"
  obtain row rest where rows: "rows = row # rest"
    using assms(2) by (cases rows) auto
  let ?es = "map (\<lambda>row. getitem row ''entry'') rest"
  obtain st lerr where l: "trace_loop fromtimestamp ?st0 rows = (st, lerr)"
    by (cases "trace_loop fromtimestamp ?st0 rows")
  have e: "entries = entries_file st"
    using assms l by (auto simp: process_trace_def split: option.splits prod.splits)
  have pos: "1 \<le> runs (getitem row ''entry'' # ?es)"
    by (rule runs_pos)
  have "length (entries_file st) \<le> runs (getitem row ''entry'' # ?es)"
  proof (cases "getitem row ''entry''")
    case (Inl e)
    then show ?thesis using l rows pos by auto
  next
    case (Inr entry)
    then have "trace_loop fromtimestamp (?st0\<lparr>line := entry, fields_var := Buffered [row]\<rparr>) rest
                 = (st, lerr)"
      using l rows by simp
    from trace_loop_entry_count [OF this] show ?thesis
      using Inr by simp
  qed
  moreover have "0 < length entries"
    using process_trace_entries [OF assms(1)] by auto
  ultimately have "length entries - 1 < runs (getitem row ''entry'' # ?es)"
    unfolding e by arith
  then show ?thesis
    using rows by simp
qed

text \<open>
  C4: three rows in two runs, entry 1 twice and entry 2 once. The entries file gets one
  record, for entry 2, and none for entry 1, whose two field records are written all
  the same.
\<close>

theorem process_trace_runs_failing:
  "process_trace utc_clock ''trace''
     [trace_row ''1'' ''0'' ''86400'' ''0'' ''a'', trace_row ''1'' ''0'' ''86400'' ''4'' ''b'',
      trace_row ''2'' ''0'' ''86400'' ''0'' ''c''] =
     ([map Str entry_names,
       [Str ''2'', Str ''0'', Str ''1970-01-02T00:00:00'', Str ''tb_cfg_read'', Str ''0'',
        Str ''1'', Str ''2'', Str ''0'', IntV 26, Str ''3'', Str []]],
      [map Str field_names,
       [Str ''1'', IntV 0, IntV 0, IntV 255, Str ''a''],
       [Str ''1'', IntV 4, IntV 0, IntV 255, Str ''b''],
       [Str ''2'', IntV 0, IntV 0, IntV 255, Str ''c'']],
      None)"
  by (simp add: process_trace_def trace_row_def utc_clock_def entry_record_def
      convert_timestamp_def convert_int_def getitem_def dict_to_list_def select_keys_def
      List.map_filter_simps entry_names_def field_names_def int16_simps)

lemma write_row_character:
  "write_row (Character c # rest) writer field_names = (writer, Some KeyError)"
  by (simp add: field_names_def convert_int_def getitem_def)

text \<open>
  C10: with no data row the loop body never runs, \<^verbatim>\<open>fields\<close> still holds the name of
  the fields file, and the final \<^verbatim>\<open>write_row\<close> iterates over its characters: the
  comprehension yields an empty dictionary for the first one and \<^verbatim>\<open>convert_int\<close>
  raises \<^verbatim>\<open>KeyError\<close>. Both files hold their header at that point.
\<close>

theorem process_trace_no_rows:
  "process_trace fromtimestamp base [] =
     ([map Str entry_names], [map Str field_names], Some KeyError)"
proof -
  obtain c rest where
    chars: "iterate (FileName (base @ ''.processed.fields.csv'')) = Character c # rest"
    by (cases base) auto
  show ?thesis
    by (simp add: process_trace_def chars write_row_character
        del: iterate.simps write_row.simps)
qed

end
